theory Spec2Isabelle
  imports Main "HOL-Library.Word"
begin

chapter \<open>The model\<close>

section \<open>Strings of the source language\<close>

text \<open>
  The program is TypeScript. A string of the source is a finite sequence of UTF-16 code
  units, and \<open>length\<close>, \<open>===\<close>, \<open>trim\<close>, \<open>startsWith\<close>, \<open>endsWith\<close> and the regular
  expressions used below all work on code units. A code unit is a 16-bit word; an ASCII
  literal of the source is written \<open>u16 ''...''\<close>.
\<close>

type_synonym jschar = "16 word"
type_synonym jsstring = "jschar list"

definition u16 :: "string \<Rightarrow> jsstring" where
  "u16 s = map (\<lambda>c. of_nat (of_char c)) s"

text \<open>
  ECMAScript \<open>WhiteSpace\<close> and \<open>LineTerminator\<close> code points: the characters that
  \<open>String.prototype.trim\<close> strips and that \<open>\s\<close> matches.
\<close>

definition isLineTerminator :: "jschar \<Rightarrow> bool" where
  "isLineTerminator c \<longleftrightarrow> c \<in> {0x000A, 0x000D, 0x2028, 0x2029}"

definition isWhiteSpace :: "jschar \<Rightarrow> bool" where
  "isWhiteSpace c \<longleftrightarrow>
     c \<in> {0x0009, 0x000B, 0x000C, 0x0020, 0x00A0, 0x1680, 0x202F, 0x205F, 0x3000, 0xFEFF}
     \<or> (0x2000 \<le> c \<and> c \<le> 0x200A)"

definition isTrimmed :: "jschar \<Rightarrow> bool" where
  "isTrimmed c \<longleftrightarrow> isWhiteSpace c \<or> isLineTerminator c"

definition trim :: "jsstring \<Rightarrow> jsstring" where
  "trim s = rev (dropWhile isTrimmed (rev (dropWhile isTrimmed s)))"

section \<open>Tracker-mismatch warning (resume command)\<close>

text \<open>
  Modelled from the spec: \<open>shouldWarnAboutTrackerMismatch\<close> lives in
  \<open>src/commands/resume\<close>, which is not among the sources; only its test file is. The spec
  gives the predicate as \<open>engineTaskCount == 0 && sessionKnownTaskCount > 0\<close>. Counts are
  numbers of the source; they are integers here.
\<close>

definition shouldWarnAboutTrackerMismatch :: "int \<Rightarrow> int \<Rightarrow> bool" where
  "shouldWarnAboutTrackerMismatch engineTaskCount sessionKnownTaskCount \<longleftrightarrow>
     engineTaskCount = 0 \<and> sessionKnownTaskCount > 0"

section \<open>Conflict resolution: the fast path\<close>

record FileConflict =
  filePath :: jsstring
  oursContent :: jsstring
  theirsContent :: jsstring
  baseContent :: jsstring
  conflictMarkers :: jsstring

text \<open>\<open>tryFastPathResolution\<close> of \<open>parallel/ai-resolver.ts\<close>; \<open>null\<close> is \<open>None\<close>.\<close>

definition tryFastPathResolution :: "FileConflict \<Rightarrow> jsstring option" where
  "tryFastPathResolution conflict =
     (let oursEmpty = (trim (oursContent conflict) = []);
          theirsEmpty = (trim (theirsContent conflict) = [])
      in if oursEmpty \<and> \<not> theirsEmpty then Some (theirsContent conflict)
         else if \<not> oursEmpty \<and> theirsEmpty then Some (oursContent conflict)
         else if oursContent conflict = theirsContent conflict then Some (oursContent conflict)
         else None)"

text \<open>A side is whitespace-only when every code unit of it is stripped by \<open>trim\<close>.\<close>

definition whitespaceOnly :: "jsstring \<Rightarrow> bool" where
  "whitespaceOnly s \<longleftrightarrow> list_all isTrimmed s"

text \<open>
  \<open>extractResolvedContent\<close> of the same file: the agent's output is trimmed, one outer
  Markdown fence is stripped, and empty content is rejected. The fence is the regular
  expression \<open>^```[\w]*\n([\s\S]*)\n```$\<close>: three backticks, word characters up to a
  line feed, the captured body, a line feed and three backticks at the end of the string.
  The word characters before the first line feed are exactly the longest run of them, and
  the closing fence is anchored at the end, so the match, when there is one, is unique.
\<close>

definition isWordChar :: "jschar \<Rightarrow> bool" where
  "isWordChar c \<longleftrightarrow>
     (0x30 \<le> c \<and> c \<le> 0x39) \<or> (0x41 \<le> c \<and> c \<le> 0x5A) \<or> (0x61 \<le> c \<and> c \<le> 0x7A) \<or> c = 0x5F"

definition fenceMatch :: "jsstring \<Rightarrow> jsstring option" where
  "fenceMatch content =
     (if take 3 content = [0x60, 0x60, 0x60]
      then (case dropWhile isWordChar (drop 3 content) of
              [] \<Rightarrow> None
            | c # rest \<Rightarrow>
                if c = 0x0A \<and> 4 \<le> length rest
                   \<and> drop (length rest - 4) rest = [0x0A, 0x60, 0x60, 0x60]
                then Some (take (length rest - 4) rest)
                else None)
      else None)"

definition extractResolvedContent :: "jsstring \<Rightarrow> jsstring option" where
  "extractResolvedContent stdout =
     (let content = trim stdout;
          content = (case fenceMatch content of Some body \<Rightarrow> body | None \<Rightarrow> content)
      in if length content = 0 then None else Some content)"

section \<open>Agent adapter: merging the argument list\<close>

text \<open>
  \<open>FlagOrderTestPlugin\<close> (the test file of \<open>plugins/agents/base\<close>) replicates the flag
  merge of \<open>BaseAgentPlugin.execute\<close>:
  \<open>allArgs = [...this.defaultFlags, ...args, ...(options?.flags ?? [])]\<close>,
  where \<open>args = this.buildArgs(prompt, files, options)\<close>. An optional field that is
  absent is \<open>None\<close>; the other fields of the options (\<open>cwd\<close>, \<open>timeout\<close>, \<open>onStdout\<close>) play
  no part in the merge and are the extension of the record. The plugin's \<open>buildArgs\<close> pushes \<open>--model\<close> and the model when
  \<open>modelFromBuildArgs\<close> is truthy, that is, set and not the empty string.
\<close>

record AgentExecuteOptions =
  flags :: "jsstring list option"

record FlagOrderTestPlugin =
  defaultFlags :: "jsstring list"
  modelFromBuildArgs :: "jsstring option"
  scriptPathForTest :: "jsstring option"
  defaultCommand :: jsstring

definition buildArgs :: "FlagOrderTestPlugin \<Rightarrow> jsstring list" where
  "buildArgs plugin =
     (case modelFromBuildArgs plugin of
        None \<Rightarrow> []
      | Some m \<Rightarrow> if m = [] then [] else [u16 ''--model'', m])"

definition engineFlags :: "'a AgentExecuteOptions_scheme option \<Rightarrow> jsstring list" where
  "engineFlags options =
     (case options of
        None \<Rightarrow> []
      | Some opts \<Rightarrow> (case flags opts of None \<Rightarrow> [] | Some fl \<Rightarrow> fl))"

definition execute_allArgs ::
  "FlagOrderTestPlugin \<Rightarrow> 'a AgentExecuteOptions_scheme option \<Rightarrow> jsstring list" where
  "execute_allArgs plugin options =
     (let args = buildArgs plugin
      in defaultFlags plugin @ args @ engineFlags options)"

text \<open>The process that is spawned: \<open>[command, ...allArgs]\<close>.\<close>

definition execute_argv ::
  "FlagOrderTestPlugin \<Rightarrow> 'a AgentExecuteOptions_scheme option \<Rightarrow> jsstring list" where
  "execute_argv plugin options =
     (case scriptPathForTest plugin of None \<Rightarrow> defaultCommand plugin | Some p \<Rightarrow> p)
       # execute_allArgs plugin options"

text \<open>
  The reading of an argument list by a command line in which the last flag wins: the
  value of a flag is the argument that follows its last occurrence.
\<close>

fun lastFlagValue :: "'a \<Rightarrow> 'a list \<Rightarrow> 'a option" where
  "lastFlagValue f [] = None"
| "lastFlagValue f [a] = None"
| "lastFlagValue f (a # v # rest) =
     (case lastFlagValue f (v # rest) of
        Some w \<Rightarrow> Some w
      | None \<Rightarrow> if a = f then Some v else None)"

section \<open>Tracker adapter: ordering of dotted child ids\<close>

text \<open>
  \<open>plugins/trackers/task-ordering.ts\<close>. A task is any object with an \<open>id\<close>
  (\<open>T extends TaskWithId\<close>): an extensible record. The field is written \<open>id'\<close>,
  since \<open>id\<close> is the identity function of HOL.
\<close>

record TaskWithId =
  id' :: jsstring

record ParsedChildId =
  rawId :: jsstring
  prefix :: jsstring
  issueNumber :: nat

text \<open>
  \<open>parseChildTaskId\<close> matches \<open>/^(.*)\.(\d+)$/\<close>: the digits are the longest run
  of ASCII digits at the end, they are not empty, the code unit before them is a full
  stop, and what precedes it (the prefix) has no line terminator, which \<open>.\<close> does not
  match. \<open>Number\<close> of the digits is the double nearest to their decimal value (ties to
  even), \<open>Infinity\<close> from \<open>2^1024 - 2^970\<close> on; the double of a natural number
  is a natural number, and \<open>toDouble\<close> gives it, with \<open>None\<close> for \<open>Infinity\<close>, which
  \<open>Number.isFinite\<close> rejects.
\<close>

definition isDigit :: "jschar \<Rightarrow> bool" where
  "isDigit c \<longleftrightarrow> 0x30 \<le> c \<and> c \<le> 0x39"

definition digitsValue :: "jsstring \<Rightarrow> nat" where
  "digitsValue ds = foldl (\<lambda>acc d. 10 * acc + (unat d - 48)) 0 ds"

fun bitLength :: "nat \<Rightarrow> nat" where
  "bitLength n = (if n = 0 then 0 else Suc (bitLength (n div 2)))"

declare bitLength.simps [simp del]

definition toDouble :: "nat \<Rightarrow> nat option" where
  "toDouble v =
     (if v < 2 ^ 53 then Some v
      else let e = bitLength v - 53;
               q = v div 2 ^ e;
               r = v mod 2 ^ e;
               half = 2 ^ (e - 1);
               q' = (if half < r \<or> (r = half \<and> odd q) then q + 1 else q);
               d = q' * 2 ^ e
           in if d < 2 ^ 1024 then Some d else None)"

definition parseChildTaskId :: "jsstring \<Rightarrow> ParsedChildId option" where
  "parseChildTaskId s =
     (let digits = rev (takeWhile isDigit (rev s))
      in case dropWhile isDigit (rev s) of
           [] \<Rightarrow> None
         | c # revPrefix \<Rightarrow>
             if c = 0x2E \<and> digits \<noteq> [] \<and> \<not> list_ex isLineTerminator revPrefix
             then (case toDouble (digitsValue digits) of
                     None \<Rightarrow> None
                   | Some n \<Rightarrow> Some \<lparr>rawId = s, prefix = rev revPrefix, issueNumber = n\<rparr>)
             else None)"

text \<open>
  \<open>String.prototype.localeCompare\<close> with the options \<open>numeric\<close> and
  \<open>sensitivity: 'base'\<close> is the collation of the runtime's ICU library. It is a
  parameter of the model.
\<close>

definition compareParsedChildIds ::
  "(jsstring \<Rightarrow> jsstring \<Rightarrow> int) \<Rightarrow> ParsedChildId \<Rightarrow> ParsedChildId \<Rightarrow> int" where
  "compareParsedChildIds localeCompare a b =
     (let prefixComparison = localeCompare (prefix a) (prefix b)
      in if prefixComparison \<noteq> 0 then prefixComparison
         else if issueNumber a \<noteq> issueNumber b then int (issueNumber a) - int (issueNumber b)
         else localeCompare (rawId a) (rawId b))"

text \<open>
  \<open>Array.prototype.sort\<close> is stable, and for a consistent comparator its result is the
  one stable sorted arrangement of the array: that of insertion sort, where an element is
  placed before the first element it does not follow.
\<close>

fun insertBy :: "('a \<Rightarrow> 'a \<Rightarrow> int) \<Rightarrow> 'a \<Rightarrow> 'a list \<Rightarrow> 'a list" where
  "insertBy cmp x [] = [x]"
| "insertBy cmp x (y # ys) = (if cmp x y \<le> 0 then x # y # ys else y # insertBy cmp x ys)"

definition sortBy :: "('a \<Rightarrow> 'a \<Rightarrow> int) \<Rightarrow> 'a list \<Rightarrow> 'a list" where
  "sortBy cmp xs = foldr (insertBy cmp) xs []"

record 'a ChildEntry =
  index :: nat
  task :: 'a
  parsed :: ParsedChildId

definition childEntriesOf :: "'a TaskWithId_scheme list \<Rightarrow> 'a TaskWithId_scheme ChildEntry list" where
  "childEntriesOf tasks =
     List.map_filter
       (\<lambda>(i, t). case parseChildTaskId (id' t) of
                    None \<Rightarrow> None
                  | Some p \<Rightarrow> Some \<lparr>index = i, task = t, parsed = p\<rparr>)
       (enumerate 0 tasks)"

definition sortDottedChildTaskIds ::
  "(jsstring \<Rightarrow> jsstring \<Rightarrow> int) \<Rightarrow> 'a TaskWithId_scheme list \<Rightarrow> 'a TaskWithId_scheme list" where
  "sortDottedChildTaskIds localeCompare tasks =
     (if length tasks < 2 then tasks
      else let childEntries = childEntriesOf tasks
           in if length childEntries < 2 then tasks
              else let sortedChildren =
                         map task (sortBy (\<lambda>a b. compareParsedChildIds localeCompare (parsed a) (parsed b))
                                     childEntries)
                   in fold (\<lambda>(originalEntry, sortedTask) result. result[index originalEntry := sortedTask])
                        (zip childEntries sortedChildren) tasks)"

text \<open>
  \<open>codeUnitCompare\<close> orders strings by their code units, lexicographically; it is one
  consistent comparator.
\<close>

definition codeUnitCompare :: "jsstring \<Rightarrow> jsstring \<Rightarrow> int" where
  "codeUnitCompare a b = (if a = b then 0 else if ord_class.lexordp a b then -1 else 1)"

text \<open>A comparator is consistent when it is a total preorder read through its sign.\<close>

definition consistentComparator :: "('a \<Rightarrow> 'a \<Rightarrow> int) \<Rightarrow> bool" where
  "consistentComparator cmp \<longleftrightarrow>
     (\<forall>a b. (cmp a b < 0) = (0 < cmp b a))
     \<and> (\<forall>a b c. cmp a b \<le> 0 \<and> cmp b c \<le> 0 \<longrightarrow> cmp a c \<le> 0)"

text \<open>
  Notions for the proofs: a task is a child when its id parses; \<open>refill P ts s\<close>
  replaces the elements of \<open>ts\<close> that satisfy \<open>P\<close>, in order, by the elements of \<open>s\<close>.
\<close>

definition isChild :: "'a TaskWithId_scheme \<Rightarrow> bool" where
  "isChild t \<longleftrightarrow> parseChildTaskId (id' t) \<noteq> None"

fun refill :: "('a \<Rightarrow> bool) \<Rightarrow> 'a list \<Rightarrow> 'a list \<Rightarrow> 'a list" where
  "refill P [] s = []"
| "refill P (t # ts) s =
     (if P t then (case s of [] \<Rightarrow> t # ts | x # xs \<Rightarrow> x # refill P ts xs)
      else t # refill P ts s)"

definition cmpTask :: "(jsstring \<Rightarrow> jsstring \<Rightarrow> int) \<Rightarrow> 'a TaskWithId_scheme \<Rightarrow> 'a TaskWithId_scheme \<Rightarrow> int" where
  "cmpTask lc s t = compareParsedChildIds lc (the (parseChildTaskId (id' s))) (the (parseChildTaskId (id' t)))"

section \<open>Session manager: resolving the session to resume\<close>

text \<open>
  Modelled from the spec: \<open>resolveSession\<close> lives in \<open>src/commands/resume\<close>, which is
  not among the sources; its test file is, and so is the interface it is tested through
  (the functions of the session module that the tests replace). The spec has two
  sentences on it. The first: match by explicit id (exact, then unique prefix, an
  ambiguous prefix being an error), and fall back to the session whose cwd equals the
  current cwd. The second: verify that the registry entry exists and that the session
  file exists; otherwise guide the user to \<open>--cleanup\<close> or \<open>run\<close>. \<open>matchSession\<close> is the
  first sentence, \<open>resolveSession\<close> the second applied to its result.
\<close>


record ResumeArgs =
  sessionId_arg :: "jsstring option"
  cwd_arg :: jsstring
  headless :: bool
  force :: bool













section \<open>Paths and the file system\<close>

text \<open>
  The worktree manager (\<open>session-worktree.ts\<close>) works on the file system through
  \<open>node:fs\<close> and \<open>node:path\<close>. Paths are POSIX paths; an absolute, normalised path is
  the list of its segments, the root being the empty list, and \<open>path.join\<close> of such a
  path with clean segments appends them.
\<close>

definition startsWith :: "jsstring \<Rightarrow> jsstring \<Rightarrow> bool" where
  "startsWith s pre \<longleftrightarrow> take (length pre) s = pre"

definition endsWith :: "jsstring \<Rightarrow> jsstring \<Rightarrow> bool" where
  "endsWith s suf \<longleftrightarrow> length suf \<le> length s \<and> drop (length s - length suf) s = suf"

type_synonym path = "jsstring list"

text \<open>\<open>isInside dir p\<close>: the path \<open>p\<close> is \<open>dir\<close> or lies below it.\<close>

definition isInside :: "path \<Rightarrow> path \<Rightarrow> bool" where
  "isInside dir p \<longleftrightarrow> take (length dir) p = dir"

text \<open>
  The file system is a list of bindings from paths to nodes, a regular file with its
  content or a directory; the first binding of a path is the one in force, and the order
  of the list is the order in which a directory is read. The root is a directory. The
  operations are those of \<open>node:fs\<close> that the worktree manager calls, each returning the
  error it throws or the new file system. Permissions and links are not modelled.
\<close>

datatype node = File jsstring | Dir

type_synonym filesystem = "(path \<times> node) list"

datatype fsError = ENOENT | ENOTDIR | EISDIR | EEXIST | ENOTEMPTY

definition lookup :: "filesystem \<Rightarrow> path \<Rightarrow> node option" where
  "lookup fs p = (if p = [] then Some Dir else map_of fs p)"

definition existsSync :: "filesystem \<Rightarrow> path \<Rightarrow> bool" where
  "existsSync fs p \<longleftrightarrow> lookup fs p \<noteq> None"

fun isFile :: "node option \<Rightarrow> bool" where
  "isFile (Some (File _)) = True"
| "isFile _ = False"

text \<open>
  \<open>fs.mkdirSync(p, {recursive: true})\<close> creates \<open>p\<close> and its missing ancestors,
  \<open>dirChain p\<close>; it throws when one of them is a regular file.
\<close>

fun dirChainFrom :: "path \<Rightarrow> path \<Rightarrow> path list" where
  "dirChainFrom pre [] = []"
| "dirChainFrom pre (s # rest) = (pre @ [s]) # dirChainFrom (pre @ [s]) rest"

definition dirChain :: "path \<Rightarrow> path list" where
  "dirChain p = dirChainFrom [] p"

definition mkdirSyncRecursive :: "filesystem \<Rightarrow> path \<Rightarrow> fsError + filesystem" where
  "mkdirSyncRecursive fs p =
     (if list_ex (\<lambda>q. isFile (lookup fs q)) (dirChain p)
      then Inl (if isFile (lookup fs p) then EEXIST else ENOTDIR)
      else Inr (foldl (\<lambda>fs' q. if lookup fs' q = None then (q, Dir) # fs' else fs') fs (dirChain p)))"

text \<open>
  \<open>fs.copyFileSync\<close> copies a regular file, replacing the destination if it is a regular
  file; it throws when the source is missing or a directory, when the destination is a
  directory, and when the directory of the destination is missing.
\<close>

definition copyFileSync :: "filesystem \<Rightarrow> path \<Rightarrow> path \<Rightarrow> fsError + filesystem" where
  "copyFileSync fs src dest =
     (case lookup fs src of
        None \<Rightarrow> Inl ENOENT
      | Some Dir \<Rightarrow> Inl EISDIR
      | Some (File content) \<Rightarrow>
          if lookup fs dest = Some Dir then Inl EISDIR
          else if lookup fs (butlast dest) \<noteq> Some Dir then Inl ENOENT
          else Inr ((dest, File content) # fs))"

definition readdirSync :: "filesystem \<Rightarrow> path \<Rightarrow> fsError + jsstring list" where
  "readdirSync fs d =
     (case lookup fs d of
        None \<Rightarrow> Inl ENOENT
      | Some (File _) \<Rightarrow> Inl ENOTDIR
      | Some Dir \<Rightarrow> Inr (remdups (map (\<lambda>(p, _). last p) (filter (\<lambda>(p, _). p \<noteq> [] \<and> butlast p = d) fs))))"

definition rmSyncRecursiveForce :: "filesystem \<Rightarrow> path \<Rightarrow> filesystem" where
  "rmSyncRecursiveForce fs p = filter (\<lambda>(q, _). \<not> isInside p q) fs"

definition rmdirSync :: "filesystem \<Rightarrow> path \<Rightarrow> fsError + filesystem" where
  "rmdirSync fs p =
     (case readdirSync fs p of
        Inl e \<Rightarrow> Inl e
      | Inr entries \<Rightarrow> if entries = [] then Inr (filter (\<lambda>(q, _). q \<noteq> p) fs) else Inl ENOTEMPTY)"

section \<open>Worktree manager: preserving iteration logs\<close>

text \<open>
  \<open>preserveIterationLogs\<close>: the loop over the directory entries is \<open>copyLogFiles\<close>. The
  whole body after the first test is inside \<open>try { ... } catch { }\<close>: an operation that
  throws ends the function, with the file system as it then is.
\<close>

fun copyLogFiles :: "path \<Rightarrow> path \<Rightarrow> jsstring list \<Rightarrow> filesystem \<Rightarrow> filesystem" where
  "copyLogFiles worktreeLogsDir mainLogsDir [] fs = fs"
| "copyLogFiles worktreeLogsDir mainLogsDir (file # logFiles) fs =
     (if endsWith file (u16 ''.log'')
      then (let srcPath = worktreeLogsDir @ [file];
                destPath = mainLogsDir @ [file]
            in if \<not> existsSync fs destPath
               then (case copyFileSync fs srcPath destPath of
                       Inl _ \<Rightarrow> fs
                     | Inr fs' \<Rightarrow> copyLogFiles worktreeLogsDir mainLogsDir logFiles fs')
               else copyLogFiles worktreeLogsDir mainLogsDir logFiles fs)
      else copyLogFiles worktreeLogsDir mainLogsDir logFiles fs)"

definition iterationsDir :: "path \<Rightarrow> path" where
  "iterationsDir dir = dir @ [u16 ''.ralph-tui'', u16 ''iterations'']"

definition preserveIterationLogs :: "path \<Rightarrow> path \<Rightarrow> filesystem \<Rightarrow> filesystem" where
  "preserveIterationLogs mainCwd worktreePath fs =
     (let worktreeLogsDir = iterationsDir worktreePath;
          mainLogsDir = iterationsDir mainCwd
      in if \<not> existsSync fs worktreeLogsDir then fs
         else (case mkdirSyncRecursive fs mainLogsDir of
                 Inl _ \<Rightarrow> fs
               | Inr fs1 \<Rightarrow>
                   (case readdirSync fs1 worktreeLogsDir of
                      Inl _ \<Rightarrow> fs1
                    | Inr logFiles \<Rightarrow> copyLogFiles worktreeLogsDir mainLogsDir logFiles fs1)))"

text \<open>\<open>extends fs fs'\<close>: whatever exists in \<open>fs\<close> is the same in \<open>fs'\<close>.\<close>

definition extends :: "filesystem \<Rightarrow> filesystem \<Rightarrow> bool" where
  "extends fs fs' \<longleftrightarrow> (\<forall>p. lookup fs p \<noteq> None \<longrightarrow> lookup fs' p = lookup fs p)"

text \<open>
  Two situations: a repository \<open>/repo/proj\<close> with the session worktree
  \<open>/repo/.ralph-worktrees/proj/s\<close>, whose iteration directory holds a directory named
  \<open>a.log\<close> before the log \<open>b.log\<close>; and the same worktree with two logs and a text
  file, the main directory already holding the first log.
\<close>

definition exampleMain :: path where
  "exampleMain = [u16 ''repo'', u16 ''proj'']"

definition exampleWorktree :: path where
  "exampleWorktree = [u16 ''repo'', u16 ''.ralph-worktrees'', u16 ''proj'', u16 ''s'']"

definition exampleTree :: filesystem where
  "exampleTree =
     [([u16 ''repo''], Dir),
      ([u16 ''repo'', u16 ''proj''], Dir),
      ([u16 ''repo'', u16 ''.ralph-worktrees''], Dir),
      ([u16 ''repo'', u16 ''.ralph-worktrees'', u16 ''proj''], Dir),
      (exampleWorktree, Dir),
      (exampleWorktree @ [u16 ''.ralph-tui''], Dir),
      (iterationsDir exampleWorktree, Dir)]"

definition logsWithDirectory :: filesystem where
  "logsWithDirectory =
     exampleTree
     @ [(iterationsDir exampleWorktree @ [u16 ''a.log''], Dir),
        (iterationsDir exampleWorktree @ [u16 ''b.log''], File (u16 ''iteration 2''))]"

definition logsOldAndNew :: filesystem where
  "logsOldAndNew =
     exampleTree
     @ [(iterationsDir exampleWorktree @ [u16 ''1.log''], File (u16 ''new 1'')),
        (iterationsDir exampleWorktree @ [u16 ''2.log''], File (u16 ''new 2'')),
        (iterationsDir exampleWorktree @ [u16 ''notes.txt''], File (u16 ''notes'')),
        (exampleMain @ [u16 ''.ralph-tui''], Dir),
        (iterationsDir exampleMain, Dir),
        (iterationsDir exampleMain @ [u16 ''1.log''], File (u16 ''old 1''))]"

section \<open>Worktree manager: the PRD of the JSON tracker\<close>

text \<open>
  \<open>node:path\<close> on POSIX. \<open>path.resolve(base, s)\<close> for an absolute, normalised \<open>base\<close>:
  the segments of \<open>s\<close> are applied to \<open>base\<close>, or to the root when \<open>s\<close> is absolute; an
  empty segment and \<open>.\<close> are skipped, \<open>..\<close> drops the last segment, and stays at the
  root. \<open>path.join\<close> normalises the concatenation in the same way. \<open>path.relative\<close> of two
  normalised absolute paths drops their common leading segments and climbs out of what is
  left of the first with \<open>..\<close>.
\<close>

fun splitOn :: "jschar \<Rightarrow> jsstring \<Rightarrow> jsstring list" where
  "splitOn c [] = [[]]"
| "splitOn c (x # xs) =
     (if x = c then [] # splitOn c xs
      else (case splitOn c xs of [] \<Rightarrow> [[x]] | s # ss \<Rightarrow> (x # s) # ss))"

fun joinSlash :: "jsstring list \<Rightarrow> jsstring" where
  "joinSlash [] = []"
| "joinSlash [s] = s"
| "joinSlash (s # t # ss) = s @ 0x2F # joinSlash (t # ss)"

definition pathString :: "path \<Rightarrow> jsstring" where
  "pathString p = 0x2F # joinSlash p"

definition normStep :: "path \<Rightarrow> jsstring \<Rightarrow> path" where
  "normStep p seg =
     (if seg = [] \<or> seg = u16 ''.'' then p
      else if seg = u16 ''..'' then butlast p
      else p @ [seg])"

definition pathResolve :: "path \<Rightarrow> jsstring \<Rightarrow> path" where
  "pathResolve base s =
     foldl normStep (if startsWith s (u16 ''/'') then [] else base) (splitOn 0x2F s)"

definition pathJoin :: "path \<Rightarrow> jsstring list \<Rightarrow> path" where
  "pathJoin base parts = foldl normStep base (concat (map (splitOn 0x2F) parts))"

fun pathRelative :: "path \<Rightarrow> path \<Rightarrow> jsstring list" where
  "pathRelative [] bs = bs"
| "pathRelative (a # as) [] = replicate (length (a # as)) (u16 ''..'')"
| "pathRelative (a # as) (b # bs) =
     (if a = b then pathRelative as bs
      else replicate (length (a # as)) (u16 ''..'') @ b # bs)"

text \<open>
  \<open>isPathInside\<close> of the source: the relative path is empty, or it neither starts
  with \<open>..\<close> nor is absolute.
\<close>

definition isPathInside :: "path \<Rightarrow> path \<Rightarrow> bool" where
  "isPathInside baseDir candidate =
     (let rel = joinSlash (pathRelative baseDir candidate)
      in rel = [] \<or> (\<not> startsWith rel (u16 ''..'') \<and> \<not> startsWith rel (u16 ''/'')))"

text \<open>
  \<open>path.basename\<close> and \<open>path.extname\<close>: the extension of a base name starts at its last
  full stop, and is empty when there is none, when the last one is the first character,
  and for \<open>..\<close>; \<open>path.basename(p, ext)\<close> drops the extension from the base name.
\<close>

definition pathBasename :: "path \<Rightarrow> jsstring" where
  "pathBasename p = (if p = [] then [] else last p)"

definition extname :: "jsstring \<Rightarrow> jsstring" where
  "extname b =
     (let afterDot = takeWhile (\<lambda>c. c \<noteq> 0x2E) (rev b)
      in if length afterDot = length b \<or> b = u16 ''..'' \<or> Suc (length afterDot) = length b then []
         else drop (length b - Suc (length afterDot)) b)"

definition basenameWithout :: "jsstring \<Rightarrow> jsstring \<Rightarrow> jsstring" where
  "basenameWithout b ext =
     (if ext \<noteq> [] \<and> length ext < length b \<and> endsWith b ext
      then take (length b - length ext) b else b)"

text \<open>
  The safe base of the external name:
  \<open>rawBase.replace(/[^a-zA-Z0-9._-]/g, '-').replace(/-+/g, '-').slice(0, 64) || 'prd'\<close>.
\<close>

definition isSafeChar :: "jschar \<Rightarrow> bool" where
  "isSafeChar c \<longleftrightarrow>
     (0x61 \<le> c \<and> c \<le> 0x7A) \<or> (0x41 \<le> c \<and> c \<le> 0x5A) \<or> (0x30 \<le> c \<and> c \<le> 0x39)
     \<or> c = 0x2E \<or> c = 0x5F \<or> c = 0x2D"

fun collapseDashes :: "jsstring \<Rightarrow> jsstring" where
  "collapseDashes (x # y # rest) =
     (if x = 0x2D \<and> y = 0x2D then collapseDashes (y # rest) else x # collapseDashes (y # rest))"
| "collapseDashes s = s"

definition safeBaseOf :: "jsstring \<Rightarrow> jsstring" where
  "safeBaseOf rawBase =
     (let s = take 64 (collapseDashes (map (\<lambda>c. if isSafeChar c then c else 0x2D) rawBase))
      in if s = [] then u16 ''prd'' else s)"

text \<open>
  \<open>resolveWorktreePrdPath\<close>. The digest
  \<open>createHash('sha1').update(sourcePrd).digest('hex')\<close> is that of \<open>node:crypto\<close>; it is
  the parameter \<open>sha1hex\<close> of the model, applied to the source path as a string.
\<close>

record WorktreePrdPath =
  sourcePrd :: path
  targetPrd :: path
  isExternal :: bool

definition externalPrdName :: "(jsstring \<Rightarrow> jsstring) \<Rightarrow> path \<Rightarrow> jsstring" where
  "externalPrdName sha1hex source =
     (let ext = (if extname (pathBasename source) = [] then u16 ''.json''
                 else extname (pathBasename source));
          rawBase = basenameWithout (pathBasename source) (extname (pathBasename source));
          safeBase = safeBaseOf rawBase;
          sourceHash = take 8 (sha1hex (pathString source))
      in safeBase @ u16 ''-'' @ sourceHash @ ext)"

definition resolveWorktreePrdPath ::
  "(jsstring \<Rightarrow> jsstring) \<Rightarrow> path \<Rightarrow> path \<Rightarrow> jsstring \<Rightarrow> WorktreePrdPath" where
  "resolveWorktreePrdPath sha1hex cwd worktreePath prdPath =
     (let source = pathResolve cwd prdPath
      in if isPathInside worktreePath source
         then \<lparr>sourcePrd = source, targetPrd = source, isExternal = False\<rparr>
         else if isPathInside cwd source
         then (let relativePath = joinSlash (pathRelative cwd source);
                   safeRelative = (if length relativePath > 0 then relativePath else pathBasename source)
               in \<lparr>sourcePrd = source, targetPrd = pathJoin worktreePath [safeRelative],
                   isExternal = False\<rparr>)
         else \<lparr>sourcePrd = source,
               targetPrd = pathJoin worktreePath
                             [u16 ''.ralph-tui'', u16 ''external-prd'', externalPrdName sha1hex source],
               isExternal = True\<rparr>)"

text \<open>
  \<open>copyTrackerData\<close>, the branch of the JSON tracker (\<open>trackerPlugin === 'json'\<close>); the
  branches of the beads trackers run an external command and are not modelled. The sources
  hold the function twice. \<open>copyTrackerData_json\<close> is the one of \<open>sandbox/wrapper.ts\<close>,
  which resolves the target with \<open>resolveWorktreePrdPath\<close>. \<open>prdFileOf\<close> is
  \<open>prdPath || 'prd.json'\<close>. The result is the error thrown or the object returned,
  together with the file system.
\<close>

definition prdFileOf :: "jsstring option \<Rightarrow> jsstring" where
  "prdFileOf prdPath = (case prdPath of None \<Rightarrow> u16 ''prd.json'' | Some s \<Rightarrow> if s = [] then u16 ''prd.json'' else s)"

record TrackerDataResult =
  jsonPrdPath :: path
  jsonPrdIsExternal :: bool

definition copyTrackerData_json ::
  "(jsstring \<Rightarrow> jsstring) \<Rightarrow> path \<Rightarrow> path \<Rightarrow> jsstring option \<Rightarrow> filesystem
   \<Rightarrow> (fsError + TrackerDataResult) \<times> filesystem" where
  "copyTrackerData_json sha1hex cwd worktreePath prdPath fs =
     (let prdFile = prdFileOf prdPath;
          r = resolveWorktreePrdPath sha1hex cwd worktreePath prdFile;
          result = \<lparr>jsonPrdPath = targetPrd r, jsonPrdIsExternal = isExternal r\<rparr>
      in if existsSync fs (sourcePrd r) \<and> sourcePrd r \<noteq> targetPrd r
         then (case mkdirSyncRecursive fs (butlast (targetPrd r)) of
                 Inl e \<Rightarrow> (Inl e, fs)
               | Inr fs1 \<Rightarrow>
                   (case copyFileSync fs1 (sourcePrd r) (targetPrd r) of
                      Inl e \<Rightarrow> (Inl e, fs1)
                    | Inr fs2 \<Rightarrow> (Inr result, fs2)))
         else (Inr result, fs))"

text \<open>
  \<open>copyTrackerData_json_legacy\<close> is the one of \<open>session-worktree.ts\<close>: it joins the
  worktree path with \<open>path.relative(cwd, sourcePrd)\<close> and returns nothing.
\<close>

definition copyTrackerData_json_legacy ::
  "path \<Rightarrow> path \<Rightarrow> jsstring option \<Rightarrow> filesystem \<Rightarrow> (fsError + unit) \<times> filesystem" where
  "copyTrackerData_json_legacy cwd worktreePath prdPath fs =
     (let prdFile = prdFileOf prdPath;
          source = pathResolve cwd prdFile
      in if existsSync fs source
         then (let target = pathJoin worktreePath [joinSlash (pathRelative cwd source)]
               in case mkdirSyncRecursive fs (butlast target) of
                    Inl e \<Rightarrow> (Inl e, fs)
                  | Inr fs1 \<Rightarrow>
                      (case copyFileSync fs1 source target of
                         Inl e \<Rightarrow> (Inl e, fs1)
                       | Inr fs2 \<Rightarrow> (Inr (), fs2)))
         else (Inr (), fs))"

text \<open>
  Two more situations of the example repository: a PRD inside the worktree, and a PRD in
  \<open>/repo/ext\<close>, outside the cwd and the worktree. \<open>exampleDigest\<close> stands for a digest.
\<close>

definition prdInsideWorktree :: filesystem where
  "prdInsideWorktree = exampleTree @ [(exampleWorktree @ [u16 ''prd.json''], File (u16 ''{}''))]"

definition prdOutside :: filesystem where
  "prdOutside =
     exampleTree @ [([u16 ''repo'', u16 ''ext''], Dir),
                    ([u16 ''repo'', u16 ''ext'', u16 ''my prd.json''], File (u16 ''{}''))]"

definition exampleDigest :: "jsstring \<Rightarrow> jsstring" where
  "exampleDigest s = u16 ''3f786850e387550fdab836ed7e6dc881de23001b''"

text \<open>
  A clean segment is a name a normalised path can hold; a hexadecimal digest is what
  \<open>digest('hex')\<close> returns.
\<close>

definition cleanSegment :: "jsstring \<Rightarrow> bool" where
  "cleanSegment s \<longleftrightarrow> s \<noteq> [] \<and> s \<noteq> u16 ''.'' \<and> s \<noteq> u16 ''..'' \<and> 0x2F \<notin> set s"

definition wfPath :: "path \<Rightarrow> bool" where
  "wfPath p \<longleftrightarrow> list_all cleanSegment p"

definition isHexDigit :: "jschar \<Rightarrow> bool" where
  "isHexDigit c \<longleftrightarrow> (0x30 \<le> c \<and> c \<le> 0x39) \<or> (0x61 \<le> c \<and> c \<le> 0x66)"

definition hexDigest :: "(jsstring \<Rightarrow> jsstring) \<Rightarrow> bool" where
  "hexDigest h \<longleftrightarrow> (\<forall>s. list_all isHexDigit (h s))"

section \<open>Session worktrees: git and the world\<close>

text \<open>
  The session-worktree module (the third module of \<open>sandbox/wrapper.ts\<close>) reaches git
  through one function, \<open>git(cwd, args)\<close>, which returns the standard output of
  \<open>git -C cwd args\<close> and throws when the command fails. It is always called with the
  project directory; the argument lists it is called with are the constructors below:
  \<open>rev-parse --abbrev-ref HEAD\<close>, \<open>merge --ff-only b\<close>, \<open>merge --no-edit b\<close>,
  \<open>merge --abort\<close>, \<open>worktree remove --force p\<close>, \<open>worktree prune\<close>, \<open>branch -D b\<close>,
  \<open>worktree add -b b p HEAD\<close>, \<open>worktree add p b\<close>, \<open>worktree list --porcelain\<close> and
  \<open>show-ref --verify --quiet refs/heads/b\<close>.
\<close>

datatype GitCmd =
    RevParseAbbrevRefHead
  | MergeFfOnly jsstring
  | MergeNoEdit jsstring
  | MergeAbort
  | WorktreeRemoveForce path
  | WorktreePrune
  | BranchDeleteForce jsstring
  | WorktreeAddNewBranch jsstring path
  | WorktreeAdd path jsstring
  | WorktreeListPorcelain
  | ShowRefVerifyQuiet jsstring

text \<open>
  What the module sees of its environment: the file system; the local branches; which
  commands fail (\<open>gitFails\<close>, an arbitrary predicate: nothing is assumed about when git
  fails); the branch that \<open>rev-parse\<close> prints and the text that \<open>worktree list\<close> prints;
  the commands run so far, oldest first; the working directory of the process, against
  which \<open>path.resolve\<close> resolves; and the two disk probes of \<open>checkDiskSpace\<close>:
  \<open>statfsAvailable\<close> is \<open>bavail * bsize\<close> when \<open>statfs\<close> answers with a finite number,
  \<open>dfAvailableKb\<close> is the \<open>avail\<close> column that the function reads from \<open>df -k\<close> when it
  finds one.
\<close>

record World =
  disk :: filesystem
  branches :: "jsstring list"
  gitFails :: "GitCmd \<Rightarrow> bool"
  headRef :: jsstring
  worktreeListing :: jsstring
  gitLog :: "GitCmd list"
  processCwd :: path
  statfsAvailable :: "nat option"
  dfAvailableKb :: "nat option"

text \<open>What the functions throw: the disk-space error, a file-system error, a failed command.\<close>

datatype Error = InsufficientDiskSpace | FsError fsError | GitError GitCmd

text \<open>
  The effects of a command that succeeds, as far as the module relies on them:
  \<open>worktree remove --force\<close> deletes the directory, \<open>branch -D\<close> deletes the branch,
  \<open>worktree add\<close> creates the directory with its missing ancestors, and with \<open>-b\<close> the
  branch. What a merge does to the checkout of the project is not part of the model; the
  other commands change neither files nor branches. A command that fails changes nothing.
  Every command is logged, failed or not.
\<close>

definition addDirs :: "filesystem \<Rightarrow> path \<Rightarrow> filesystem" where
  "addDirs fs p = foldl (\<lambda>fs' q. if lookup fs' q = None then (q, Dir) # fs' else fs') fs (dirChain p)"

fun gitOutput :: "'a World_scheme \<Rightarrow> GitCmd \<Rightarrow> jsstring" where
  "gitOutput w RevParseAbbrevRefHead = headRef w"
| "gitOutput w WorktreeListPorcelain = worktreeListing w"
| "gitOutput w _ = []"

fun gitEffect :: "GitCmd \<Rightarrow> 'a World_scheme \<Rightarrow> 'a World_scheme" where
  "gitEffect (WorktreeRemoveForce p) w = w\<lparr>disk := rmSyncRecursiveForce (disk w) p\<rparr>"
| "gitEffect (BranchDeleteForce b) w = w\<lparr>branches := removeAll b (branches w)\<rparr>"
| "gitEffect (WorktreeAddNewBranch b p) w = w\<lparr>disk := addDirs (disk w) p, branches := b # branches w\<rparr>"
| "gitEffect (WorktreeAdd p b) w = w\<lparr>disk := addDirs (disk w) p\<rparr>"
| "gitEffect _ w = w"

definition git :: "'a World_scheme \<Rightarrow> GitCmd \<Rightarrow> (Error + jsstring) \<times> 'a World_scheme" where
  "git w cmd =
     (let w1 = w\<lparr>gitLog := gitLog w @ [cmd]\<rparr>
      in if gitFails w cmd then (Inl (GitError cmd), w1)
         else (Inr (gitOutput w cmd), gitEffect cmd w1))"

text \<open>
  \<open>getWorktreeBaseDir\<close>: the worktrees of a project live beside it, in
  \<open>.ralph-worktrees/<project name>\<close> of the parent directory. \<open>path.dirname\<close> of an
  absolute normalised path drops its last segment.
\<close>

definition getWorktreeBaseDir :: "path \<Rightarrow> path" where
  "getWorktreeBaseDir cwd = pathJoin (butlast cwd) [u16 ''.ralph-worktrees'', pathBasename cwd]"

text \<open>
  \<open>checkDiskSpace\<close> throws only when a probe gave a number and the number is below
  500 MB; \<open>statfs\<close> is used when it gives a positive number, \<open>df\<close> otherwise.
\<close>

definition DEFAULT_MIN_FREE_DISK_SPACE :: nat where
  "DEFAULT_MIN_FREE_DISK_SPACE = 500 * 1024 * 1024"

definition availableDiskSpace :: "'a World_scheme \<Rightarrow> nat option" where
  "availableDiskSpace w =
     (let fromDf = (case dfAvailableKb w of None \<Rightarrow> None | Some kb \<Rightarrow> Some (kb * 1024))
      in case statfsAvailable w of
           None \<Rightarrow> fromDf
         | Some v \<Rightarrow> if v > 0 then Some v else fromDf)"

definition checkDiskSpace :: "'a World_scheme \<Rightarrow> Error + unit" where
  "checkDiskSpace w =
     (case availableDiskSpace w of
        None \<Rightarrow> Inr ()
      | Some available \<Rightarrow>
          if available < DEFAULT_MIN_FREE_DISK_SPACE then Inl InsufficientDiskSpace else Inr ())"

text \<open>
  \<open>copyConfig\<close> copies \<open>config.toml\<close>, \<open>config.yaml\<close> and \<open>config.yml\<close> of the project's
  \<open>.ralph-tui\<close> into the worktree, each one if it exists; \<open>copyConfigFile\<close> is the block
  that the source repeats for each name.
\<close>

definition copyConfigFile :: "path \<Rightarrow> path \<Rightarrow> jsstring \<Rightarrow> filesystem \<Rightarrow> (fsError + unit) \<times> filesystem" where
  "copyConfigFile configDir targetDir name fs =
     (if existsSync fs (configDir @ [name])
      then (case mkdirSyncRecursive fs targetDir of
              Inl e \<Rightarrow> (Inl e, fs)
            | Inr fs1 \<Rightarrow>
                (case copyFileSync fs1 (configDir @ [name]) (targetDir @ [name]) of
                   Inl e \<Rightarrow> (Inl e, fs1)
                 | Inr fs2 \<Rightarrow> (Inr (), fs2)))
      else (Inr (), fs))"

definition copyConfig :: "path \<Rightarrow> path \<Rightarrow> filesystem \<Rightarrow> (fsError + unit) \<times> filesystem" where
  "copyConfig cwd wt fs =
     (let configDir = cwd @ [u16 ''.ralph-tui''];
          targetDir = wt @ [u16 ''.ralph-tui'']
      in case copyConfigFile configDir targetDir (u16 ''config.toml'') fs of
           (Inl e, fs1) \<Rightarrow> (Inl e, fs1)
         | (Inr _, fs1) \<Rightarrow>
             (case copyConfigFile configDir targetDir (u16 ''config.yaml'') fs1 of
                (Inl e, fs2) \<Rightarrow> (Inl e, fs2)
              | (Inr _, fs2) \<Rightarrow> copyConfigFile configDir targetDir (u16 ''config.yml'') fs2))"

text \<open>
  \<open>parseWorktreeList\<close> reads the output of \<open>worktree list --porcelain\<close> line by line: a
  \<open>worktree\<close> line opens an entry, a \<open>branch\<close> line names the branch of the open entry
  (without \<open>refs/heads/\<close>), every other line is skipped. \<open>current\<close> is the open entry.
\<close>

record WorktreeEntry =
  entryPath :: path
  entryBranch :: "jsstring option"

fun parseWorktreeLines ::
  "path \<Rightarrow> jsstring list \<Rightarrow> WorktreeEntry list \<Rightarrow> WorktreeEntry option \<Rightarrow> WorktreeEntry list" where
  "parseWorktreeLines base [] entries current =
     (case current of None \<Rightarrow> entries | Some c \<Rightarrow> entries @ [c])"
| "parseWorktreeLines base (line # rest) entries current =
     (if startsWith line (u16 ''worktree '')
      then parseWorktreeLines base rest
             (case current of None \<Rightarrow> entries | Some c \<Rightarrow> entries @ [c])
             (Some \<lparr>entryPath = pathResolve base (trim (drop (length (u16 ''worktree '')) line)),
                    entryBranch = None\<rparr>)
      else if startsWith line (u16 ''branch '')
      then (case current of
              None \<Rightarrow> parseWorktreeLines base rest entries current
            | Some c \<Rightarrow>
                (let ref = trim (drop (length (u16 ''branch '')) line)
                 in parseWorktreeLines base rest entries
                      (Some (c\<lparr>entryBranch :=
                                 Some (if startsWith ref (u16 ''refs/heads/'')
                                       then drop (length (u16 ''refs/heads/'')) ref else ref)\<rparr>))))
      else parseWorktreeLines base rest entries current)"

definition parseWorktreeList :: "path \<Rightarrow> jsstring \<Rightarrow> WorktreeEntry list" where
  "parseWorktreeList base output = parseWorktreeLines base (splitOn 0x0A output) [] None"

text \<open>\<open>branchExists\<close>: a local branch exists when \<open>show-ref\<close> succeeds on it.\<close>

definition branchExists :: "'a World_scheme \<Rightarrow> jsstring \<Rightarrow> bool \<times> 'a World_scheme" where
  "branchExists w bn =
     (case git w (ShowRefVerifyQuiet bn) of
        (Inl _, w1) \<Rightarrow> (False, w1)
      | (Inr _, w1) \<Rightarrow> (True, w1))"

text \<open>
  The results of creating and of preparing a session worktree. (The fields are primed:
  \<open>worktreePath\<close> and \<open>branchName\<close> are also parameters of the functions.)
\<close>

record SessionWorktreeResult =
  worktreePath' :: path
  branchName' :: jsstring

datatype SessionWorktreeMode = created | reused | attached

record PreparedSessionWorktreeResult = SessionWorktreeResult +
  mode :: SessionWorktreeMode

text \<open>The branch and the directory of a session, as both functions below compute them.\<close>

definition sessionBranch :: "jsstring \<Rightarrow> jsstring" where
  "sessionBranch sessionName = u16 ''ralph-session/'' @ sessionName"

definition sessionWorktreePath :: "path \<Rightarrow> jsstring \<Rightarrow> path" where
  "sessionWorktreePath cwd sessionName = pathJoin (getWorktreeBaseDir cwd) [sessionName]"

text \<open>
  The block of \<open>createSessionWorktree\<close> and of \<open>prepareSessionWorktree\<close> that clears the
  path of the worktree if something is there: \<open>worktree remove --force\<close>, and if that
  fails, delete the directory and \<open>worktree prune\<close>. The two copies differ in one point:
  in \<open>createSessionWorktree\<close> a failing prune is thrown (\<open>pruneMayThrow\<close>), in
  \<open>prepareSessionWorktree\<close> it is caught.
\<close>

definition clearStalePath :: "bool \<Rightarrow> 'a World_scheme \<Rightarrow> path \<Rightarrow> (Error + unit) \<times> 'a World_scheme" where
  "clearStalePath pruneMayThrow w wt =
     (if existsSync (disk w) wt
      then (case git w (WorktreeRemoveForce wt) of
              (Inr _, w1) \<Rightarrow> (Inr (), w1)
            | (Inl _, w1) \<Rightarrow>
                (let w2 = w1\<lparr>disk := rmSyncRecursiveForce (disk w1) wt\<rparr>
                 in case git w2 WorktreePrune of
                      (Inr _, w3) \<Rightarrow> (Inr (), w3)
                    | (Inl e, w3) \<Rightarrow> (if pruneMayThrow then Inl e else Inr (), w3)))
      else (Inr (), w))"

text \<open>
  \<open>createSessionWorktree\<close>: check the disk, make the base directory, clear the path,
  delete a branch of the same name (a failure is caught), add the worktree on a new branch,
  copy the configuration.
\<close>

definition createSessionWorktree ::
  "'a World_scheme \<Rightarrow> path \<Rightarrow> jsstring \<Rightarrow> (Error + SessionWorktreeResult) \<times> 'a World_scheme" where
  "createSessionWorktree w cwd sessionName =
     (case checkDiskSpace w of
        Inl e \<Rightarrow> (Inl e, w)
      | Inr _ \<Rightarrow>
          (let bn = sessionBranch sessionName;
               baseDir = getWorktreeBaseDir cwd;
               wt = pathJoin baseDir [sessionName]
           in case mkdirSyncRecursive (disk w) baseDir of
                Inl e \<Rightarrow> (Inl (FsError e), w)
              | Inr fs1 \<Rightarrow>
                  (case clearStalePath True (w\<lparr>disk := fs1\<rparr>) wt of
                     (Inl e, w2) \<Rightarrow> (Inl e, w2)
                   | (Inr _, w2) \<Rightarrow>
                       (let w3 = snd (git w2 (BranchDeleteForce bn))
                        in case git w3 (WorktreeAddNewBranch bn wt) of
                             (Inl e, w4) \<Rightarrow> (Inl e, w4)
                           | (Inr _, w4) \<Rightarrow>
                               (case copyConfig cwd wt (disk w4) of
                                  (Inl e, fs5) \<Rightarrow> (Inl (FsError e), w4\<lparr>disk := fs5\<rparr>)
                                | (Inr _, fs5) \<Rightarrow>
                                    (Inr \<lparr>worktreePath' = wt, branchName' = bn\<rparr>,
                                     w4\<lparr>disk := fs5\<rparr>))))))"

text \<open>
  The branch of \<open>prepareSessionWorktree\<close> taken when the session branch exists and is
  not checked out anywhere: as above, but the branch is kept and the worktree is added
  on it.
\<close>

definition attachSessionWorktree ::
  "'a World_scheme \<Rightarrow> path \<Rightarrow> jsstring \<Rightarrow> (Error + PreparedSessionWorktreeResult) \<times> 'a World_scheme" where
  "attachSessionWorktree w cwd sessionName =
     (case checkDiskSpace w of
        Inl e \<Rightarrow> (Inl e, w)
      | Inr _ \<Rightarrow>
          (let bn = sessionBranch sessionName;
               baseDir = getWorktreeBaseDir cwd;
               wt = pathJoin baseDir [sessionName]
           in case mkdirSyncRecursive (disk w) baseDir of
                Inl e \<Rightarrow> (Inl (FsError e), w)
              | Inr fs1 \<Rightarrow>
                  (case clearStalePath False (w\<lparr>disk := fs1\<rparr>) wt of
                     (Inl e, w2) \<Rightarrow> (Inl e, w2)
                   | (Inr _, w2) \<Rightarrow>
                       (case git w2 (WorktreeAdd wt bn) of
                          (Inl e, w3) \<Rightarrow> (Inl e, w3)
                        | (Inr _, w3) \<Rightarrow>
                            (case copyConfig cwd wt (disk w3) of
                               (Inl e, fs4) \<Rightarrow> (Inl (FsError e), w3\<lparr>disk := fs4\<rparr>)
                             | (Inr _, fs4) \<Rightarrow>
                                 (Inr \<lparr>worktreePath' = wt, branchName' = bn, mode = attached\<rparr>,
                                  w3\<lparr>disk := fs4\<rparr>))))))"

text \<open>
  \<open>prepareSessionWorktree\<close>. \<open>listWorktrees\<close> is its first block: the entries of
  \<open>worktree list\<close>, none if the command fails. \<open>createFresh\<close> is its last:
  \<open>createSessionWorktree\<close> with mode \<open>created\<close>. The option \<open>resume\<close> may be absent, and
  then counts as false.
\<close>

definition listWorktrees :: "'a World_scheme \<Rightarrow> WorktreeEntry list \<times> 'a World_scheme" where
  "listWorktrees w =
     (case git w WorktreeListPorcelain of
        (Inl _, w1) \<Rightarrow> ([], w1)
      | (Inr output, w1) \<Rightarrow> (parseWorktreeList (processCwd w) output, w1))"

definition createFresh ::
  "'a World_scheme \<Rightarrow> path \<Rightarrow> jsstring \<Rightarrow> (Error + PreparedSessionWorktreeResult) \<times> 'a World_scheme" where
  "createFresh w cwd sessionName =
     (case createSessionWorktree w cwd sessionName of
        (Inl e, w1) \<Rightarrow> (Inl e, w1)
      | (Inr c, w1) \<Rightarrow>
          (Inr \<lparr>worktreePath' = worktreePath' c, branchName' = branchName' c, mode = created\<rparr>, w1))"

definition prepareSessionWorktree ::
  "'a World_scheme \<Rightarrow> path \<Rightarrow> jsstring \<Rightarrow> bool option
   \<Rightarrow> (Error + PreparedSessionWorktreeResult) \<times> 'a World_scheme" where
  "prepareSessionWorktree w cwd sessionName resumeOption =
     (let bn = sessionBranch sessionName;
          resume = (case resumeOption of None \<Rightarrow> False | Some r \<Rightarrow> r)
      in if resume
         then (let (entries, w1) = listWorktrees w
               in case find (\<lambda>entry. entryBranch entry = Some bn) entries of
                    Some found \<Rightarrow>
                      (Inr \<lparr>worktreePath' = entryPath found, branchName' = bn, mode = reused\<rparr>, w1)
                  | None \<Rightarrow>
                      (let (exists, w2) = branchExists w1 bn
                       in if exists then attachSessionWorktree w2 cwd sessionName
                          else createFresh w2 cwd sessionName))
         else createFresh w cwd sessionName)"

text \<open>
  The result of a merge. The message is a text for the user; the model keeps which of the
  four texts it is, and for a success the branch merged into.
\<close>

datatype MergeMessage =
    FailedToDetermineOriginalBranch
  | OriginalBranchIsSessionBranch
  | AutoMergeFailedDueToConflicts
  | SuccessfullyMerged jsstring

record MergeResult =
  success :: bool
  message :: MergeMessage

text \<open>
  \<open>removeSessionWorktree\<close> never throws: remove the worktree (if git fails, delete the
  directory if it is there, and prune), delete the branch, and remove the base directory
  and then its parent if they are empty (\<open>removeEmptyBaseDirs\<close>, the last block; any error
  ends it).
\<close>

definition removeEmptyBaseDirs :: "path \<Rightarrow> filesystem \<Rightarrow> filesystem" where
  "removeEmptyBaseDirs cwd fs =
     (let baseDir = getWorktreeBaseDir cwd
      in case readdirSync fs baseDir of
           Inl _ \<Rightarrow> fs
         | Inr entries \<Rightarrow>
             if entries = []
             then (case rmdirSync fs baseDir of
                     Inl _ \<Rightarrow> fs
                   | Inr fs1 \<Rightarrow>
                       (let parentDir = butlast baseDir
                        in case readdirSync fs1 parentDir of
                             Inl _ \<Rightarrow> fs1
                           | Inr parentEntries \<Rightarrow>
                               if parentEntries = []
                               then (case rmdirSync fs1 parentDir of Inl _ \<Rightarrow> fs1 | Inr fs2 \<Rightarrow> fs2)
                               else fs1))
             else fs)"

definition removeSessionWorktree :: "'a World_scheme \<Rightarrow> path \<Rightarrow> path \<Rightarrow> jsstring \<Rightarrow> 'a World_scheme" where
  "removeSessionWorktree w cwd wt bn =
     (let w2 = (case git w (WorktreeRemoveForce wt) of
                  (Inr _, w1) \<Rightarrow> w1
                | (Inl _, w1) \<Rightarrow>
                    snd (git (if existsSync (disk w1) wt
                              then w1\<lparr>disk := rmSyncRecursiveForce (disk w1) wt\<rparr> else w1)
                           WorktreePrune));
          w3 = snd (git w2 (BranchDeleteForce bn))
      in w3\<lparr>disk := removeEmptyBaseDirs cwd (disk w3)\<rparr>)"

text \<open>
  \<open>mergeSessionWorktree\<close>: find the branch of the project's checkout; give up if that
  fails or if it is the session branch; merge fast-forward, else with a merge commit; if
  both fail, \<open>merge --abort\<close> (a failure is caught) and report the conflict; after a merge,
  remove the worktree and report success.
\<close>

definition mergeSessionWorktree ::
  "'a World_scheme \<Rightarrow> path \<Rightarrow> path \<Rightarrow> jsstring \<Rightarrow> MergeResult \<times> 'a World_scheme" where
  "mergeSessionWorktree w cwd wt bn =
     (case git w RevParseAbbrevRefHead of
        (Inl _, w1) \<Rightarrow> (\<lparr>success = False, message = FailedToDetermineOriginalBranch\<rparr>, w1)
      | (Inr out, w1) \<Rightarrow>
          (let originalBranch = trim out
           in if originalBranch = bn
              then (\<lparr>success = False, message = OriginalBranchIsSessionBranch\<rparr>, w1)
              else (case git w1 (MergeFfOnly bn) of
                      (Inr _, w2) \<Rightarrow>
                        (\<lparr>success = True, message = SuccessfullyMerged originalBranch\<rparr>,
                         removeSessionWorktree w2 cwd wt bn)
                    | (Inl _, w2) \<Rightarrow>
                        (case git w2 (MergeNoEdit bn) of
                           (Inr _, w3) \<Rightarrow>
                             (\<lparr>success = True, message = SuccessfullyMerged originalBranch\<rparr>,
                              removeSessionWorktree w3 cwd wt bn)
                         | (Inl _, w3) \<Rightarrow>
                             (\<lparr>success = False, message = AutoMergeFailedDueToConflicts\<rparr>,
                              snd (git w3 MergeAbort))))))"

text \<open>
  For the statements: the commands of a run are what the log has gained; the commands that
  a merge is expected to run, and when it is expected to succeed, are read off the oracle.
\<close>

definition issued :: "'a World_scheme \<Rightarrow> 'a World_scheme \<Rightarrow> GitCmd list" where
  "issued w w' = drop (length (gitLog w)) (gitLog w')"

definition cleanupCommands :: "'a World_scheme \<Rightarrow> path \<Rightarrow> jsstring \<Rightarrow> GitCmd list" where
  "cleanupCommands w wt bn =
     WorktreeRemoveForce wt
       # (if gitFails w (WorktreeRemoveForce wt) then [WorktreePrune] else [])
       @ [BranchDeleteForce bn]"

definition mergeCommands :: "'a World_scheme \<Rightarrow> path \<Rightarrow> jsstring \<Rightarrow> GitCmd list" where
  "mergeCommands w wt bn =
     RevParseAbbrevRefHead
       # (if gitFails w RevParseAbbrevRefHead \<or> trim (headRef w) = bn then []
          else MergeFfOnly bn
                 # (if gitFails w (MergeFfOnly bn)
                    then MergeNoEdit bn
                           # (if gitFails w (MergeNoEdit bn) then [MergeAbort]
                              else cleanupCommands w wt bn)
                    else cleanupCommands w wt bn))"

definition mergeSucceeds :: "'a World_scheme \<Rightarrow> jsstring \<Rightarrow> bool" where
  "mergeSucceeds w bn \<longleftrightarrow>
     \<not> gitFails w RevParseAbbrevRefHead \<and> trim (headRef w) \<noteq> bn
     \<and> (\<not> gitFails w (MergeFfOnly bn) \<or> \<not> gitFails w (MergeNoEdit bn))"

text \<open>The commands with an effect on files or branches.\<close>

fun touchesRepository :: "GitCmd \<Rightarrow> bool" where
  "touchesRepository (WorktreeRemoveForce _) = True"
| "touchesRepository (BranchDeleteForce _) = True"
| "touchesRepository (WorktreeAddNewBranch _ _) = True"
| "touchesRepository (WorktreeAdd _ _) = True"
| "touchesRepository _ = False"

text \<open>
  Worlds for the examples: the repository \<open>/repo/proj\<close> on branch \<open>main\<close>, with the
  worktree of session \<open>s\<close> on disk, and enough free space. The argument says which
  commands fail: a locked worktree (it cannot be removed, nor its branch deleted), a
  history that cannot be fast-forwarded, a history that conflicts.
\<close>

definition exampleBranch :: jsstring where
  "exampleBranch = u16 ''ralph-session/s''"

definition exampleWorld :: "(GitCmd \<Rightarrow> bool) \<Rightarrow> World" where
  "exampleWorld failing =
     \<lparr>disk = exampleTree, branches = [u16 ''main'', exampleBranch], gitFails = failing,
      headRef = u16 ''main'' @ [0x0A], worktreeListing = [], gitLog = [], processCwd = exampleMain,
      statfsAvailable = Some (2 * 1024 * 1024 * 1024), dfAvailableKb = None\<rparr>"

fun lockedWorktree :: "GitCmd \<Rightarrow> bool" where
  "lockedWorktree (WorktreeRemoveForce _) = True"
| "lockedWorktree (BranchDeleteForce _) = True"
| "lockedWorktree _ = False"

fun divergedHistory :: "GitCmd \<Rightarrow> bool" where
  "divergedHistory (MergeFfOnly _) = True"
| "divergedHistory _ = False"

fun conflictingHistory :: "GitCmd \<Rightarrow> bool" where
  "conflictingHistory (MergeFfOnly _) = True"
| "conflictingHistory (MergeNoEdit _) = True"
| "conflictingHistory _ = False"

text \<open>
  For the statements: the commands that clear a stale path, and the entry of the worktree
  list that has the branch checked out.
\<close>

definition clearingCommands :: "'a World_scheme \<Rightarrow> path \<Rightarrow> GitCmd list" where
  "clearingCommands w wt =
     (if existsSync (disk w) wt
      then WorktreeRemoveForce wt # (if gitFails w (WorktreeRemoveForce wt) then [WorktreePrune] else [])
      else [])"

definition checkedOutIn :: "'a World_scheme \<Rightarrow> jsstring \<Rightarrow> WorktreeEntry option" where
  "checkedOutIn w bn = find (\<lambda>entry. entryBranch entry = Some bn) (fst (listWorktrees w))"

text \<open>
  A world where no command fails, and one where the worktree list shows the session branch
  checked out in the session's worktree.
\<close>

definition noFailure :: "GitCmd \<Rightarrow> bool" where
  "noFailure cmd = False"

definition exampleListing :: jsstring where
  "exampleListing =
     u16 ''worktree /repo/proj'' @ [0x0A] @ u16 ''HEAD 1f2e3d'' @ [0x0A]
     @ u16 ''branch refs/heads/main'' @ [0x0A] @ [0x0A]
     @ u16 ''worktree /repo/.ralph-worktrees/proj/s'' @ [0x0A] @ u16 ''HEAD 4c5b6a'' @ [0x0A]
     @ u16 ''branch refs/heads/ralph-session/s'' @ [0x0A]"

definition checkedOutWorld :: World where
  "checkedOutWorld = (exampleWorld noFailure)\<lparr>worktreeListing := exampleListing\<rparr>"

chapter \<open>Properties\<close>

section \<open>Properties of the string operations\<close>

lemma dropWhile_all_iff: "(\<forall>x\<in>set (dropWhile P s). P x) \<longleftrightarrow> (\<forall>x\<in>set s. P x)"
proof
  assume a: "\<forall>x\<in>set (dropWhile P s). P x"
  have "dropWhile P s = []"
  proof (cases "dropWhile P s")
    case (Cons y ys)
    then have "\<not> P y" using hd_dropWhile [of P s] by simp
    with a Cons show ?thesis by simp
  qed simp
  then show "\<forall>x\<in>set s. P x" by (simp add: dropWhile_eq_Nil_conv)
next
  assume "\<forall>x\<in>set s. P x"
  then show "\<forall>x\<in>set (dropWhile P s). P x" by (meson set_dropWhileD)
qed

lemma trim_Nil_iff: "trim s = [] \<longleftrightarrow> whitespaceOnly s"
  by (simp add: trim_def whitespaceOnly_def dropWhile_eq_Nil_conv list_all_iff dropWhile_all_iff)

lemmas jschar_defs = u16_def isTrimmed_def isWhiteSpace_def isLineTerminator_def

section \<open>Tracker-mismatch warning\<close>

text \<open>
  C1. The warning predicate is true exactly when the engine's task count is 0 and the
  session's known task count is positive; a non-zero engine count or a session count
  that is not positive gives false.
\<close>

theorem C1_mismatch_warning_iff:
  "shouldWarnAboutTrackerMismatch e s = (e = 0 \<and> 0 < s)
   \<and> shouldWarnAboutTrackerMismatch 0 130 \<and> shouldWarnAboutTrackerMismatch 0 1
   \<and> \<not> shouldWarnAboutTrackerMismatch 0 0 \<and> \<not> shouldWarnAboutTrackerMismatch 1 1
   \<and> \<not> shouldWarnAboutTrackerMismatch 22 130 \<and> \<not> shouldWarnAboutTrackerMismatch 150 130
   \<and> \<not> shouldWarnAboutTrackerMismatch 1 0"
  by (simp add: shouldWarnAboutTrackerMismatch_def)

section \<open>The fast path of conflict resolution\<close>

text \<open>
  C2, as stated: whenever at least one side is whitespace-only, or both sides are equal,
  the fast path returns a resolution. This fails when both sides are whitespace-only and
  differ: neither guard of the source fires (each needs the other side to be
  non-blank), the contents are not identical, and \<open>null\<close> is returned. Here ours is one
  space and theirs is one line feed.
\<close>

theorem C2_both_blank_counterexample:
  "whitespaceOnly [0x20] \<and> whitespaceOnly [0x0A]
   \<and> tryFastPathResolution
       \<lparr>filePath = u16 ''test.ts'', oursContent = [0x20], theirsContent = [0x0A],
        baseContent = [], conflictMarkers = []\<rparr> = None"
  by (simp add: tryFastPathResolution_def whitespaceOnly_def trim_def jschar_defs)

text \<open>
  C2, amended. When exactly one side is whitespace-only, or both sides are equal, the
  fast path returns a resolution: theirs when only ours is blank, ours otherwise.
\<close>

theorem C2_fast_path_total:
  assumes "(whitespaceOnly (oursContent c) \<and> \<not> whitespaceOnly (theirsContent c))
           \<or> (\<not> whitespaceOnly (oursContent c) \<and> whitespaceOnly (theirsContent c))
           \<or> oursContent c = theirsContent c"
  shows "tryFastPathResolution c =
           Some (if whitespaceOnly (oursContent c) \<and> \<not> whitespaceOnly (theirsContent c)
                 then theirsContent c else oursContent c)"
  using assms by (auto simp: tryFastPathResolution_def trim_Nil_iff)

theorem C2_fast_path_total_witness:
  "whitespaceOnly (u16 ''   '') \<and> \<not> whitespaceOnly (u16 ''const x = 1;'')
   \<and> tryFastPathResolution
     \<lparr>filePath = u16 ''test.ts'', oursContent = u16 ''   '', theirsContent = u16 ''const x = 1;'',
      baseContent = [], conflictMarkers = []\<rparr> = Some (u16 ''const x = 1;'')"
  using C2_fast_path_total
    [of "\<lparr>filePath = u16 ''test.ts'', oursContent = u16 ''   '', theirsContent = u16 ''const x = 1;'',
         baseContent = [], conflictMarkers = []\<rparr>"]
  by (simp add: whitespaceOnly_def jschar_defs)

text \<open>
  C10. When ours and theirs are both the empty string, the fast path returns the empty
  string (the two sides are identical), although the agent path rejects empty output:
  \<open>extractResolvedContent\<close> gives \<open>null\<close> on empty or blank output.
\<close>

theorem C10_both_empty_resolves_to_empty:
  "tryFastPathResolution (c\<lparr>oursContent := [], theirsContent := []\<rparr>) = Some []
   \<and> extractResolvedContent [] = None"
  by (simp add: tryFastPathResolution_def extractResolvedContent_def trim_def fenceMatch_def)

section \<open>Flag ordering of the agent adapter\<close>

lemma lastFlagValue_append_pair: "lastFlagValue f (xs @ [f, x]) = Some x"
proof (induction xs)
  case Nil
  show ?case by simp
next
  case (Cons a xs)
  then show ?case by (cases "xs @ [f, x]") auto
qed

text \<open>
  C3. The merged argument list is the default flags, then the output of \<open>buildArgs\<close>,
  then the engine-injected flags. So when the engine injects \<open>--model X\<close>, the last
  \<open>--model\<close> of the list is the engine's, whatever \<open>buildArgs\<close> produced, and X is the
  value a last-flag-wins command line reads.
\<close>

theorem C3_engine_flags_last:
  "execute_allArgs plugin (Some (opts\<lparr>flags := Some fl\<rparr>)) = defaultFlags plugin @ buildArgs plugin @ fl
   \<and> execute_allArgs plugin None = defaultFlags plugin @ buildArgs plugin
   \<and> execute_allArgs plugin (Some (opts\<lparr>flags := None\<rparr>)) = defaultFlags plugin @ buildArgs plugin
   \<and> lastFlagValue (u16 ''--model'')
        (execute_allArgs plugin (Some (opts\<lparr>flags := Some [u16 ''--model'', X]\<rparr>))) = Some X"
proof -
  have "lastFlagValue (u16 ''--model'')
          ((defaultFlags plugin @ buildArgs plugin) @ [u16 ''--model'', X]) = Some X"
    by (rule lastFlagValue_append_pair)
  then show ?thesis by (simp add: execute_allArgs_def engineFlags_def)
qed

section \<open>Ordering of dotted child ids\<close>

subsection \<open>Insertion sort by a comparator\<close>

lemma set_insertBy [simp]: "set (insertBy c x ys) = insert x (set ys)"
  by (induction ys) auto

lemma length_insertBy [simp]: "length (insertBy c x ys) = Suc (length ys)"
  by (induction ys) auto

lemma set_sortBy [simp]: "set (sortBy c xs) = set xs"
  by (induction xs) (auto simp: sortBy_def)

lemma length_sortBy [simp]: "length (sortBy c xs) = length xs"
  by (induction xs) (auto simp: sortBy_def)

lemma sortBy_Cons: "sortBy c (x # xs) = insertBy c x (sortBy c xs)"
  by (simp add: sortBy_def)

lemma map_insertBy:
  "\<forall>y\<in>set ys. c x y = c' (f x) (f y) \<Longrightarrow> map f (insertBy c x ys) = insertBy c' (f x) (map f ys)"
  by (induction ys) auto

lemma map_sortBy:
  "\<forall>x\<in>set xs. \<forall>y\<in>set xs. c x y = c' (f x) (f y) \<Longrightarrow> map f (sortBy c xs) = sortBy c' (map f xs)"
proof (induction xs)
  case Nil
  show ?case by (simp add: sortBy_def)
next
  case (Cons x xs)
  then have "map f (sortBy c xs) = sortBy c' (map f xs)" by simp
  moreover have "\<forall>y\<in>set (sortBy c xs). c x y = c' (f x) (f y)" using Cons.prems by simp
  ultimately show ?case
    using map_insertBy [of "sortBy c xs" c x c' f] by (simp add: sortBy_Cons)
qed

lemma sorted_insertBy:
  assumes tot: "\<And>x y. \<not> c x y \<le> 0 \<Longrightarrow> c y x \<le> 0"
    and tr: "\<And>x y z. c x y \<le> 0 \<Longrightarrow> c y z \<le> 0 \<Longrightarrow> c x z \<le> 0"
  shows "sorted_wrt (\<lambda>a b. c a b \<le> 0) ys \<Longrightarrow> sorted_wrt (\<lambda>a b. c a b \<le> 0) (insertBy c x ys)"
proof (induction ys)
  case Nil
  show ?case by simp
next
  case (Cons y ys)
  show ?case
  proof (cases "c x y \<le> 0")
    case True
    have "c x z \<le> 0" if "z \<in> set ys" for z
    proof -
      have "c y z \<le> 0" using Cons.prems that by simp
      with True show ?thesis by (rule tr)
    qed
    then show ?thesis using True Cons.prems by simp
  next
    case False
    then have yx: "c y x \<le> 0" by (rule tot)
    have "sorted_wrt (\<lambda>a b. c a b \<le> 0) (insertBy c x ys)"
      using Cons.prems by (simp add: Cons.IH)
    then show ?thesis using False yx Cons.prems by simp
  qed
qed

lemma sorted_sortBy:
  assumes tot: "\<And>x y. \<not> c x y \<le> 0 \<Longrightarrow> c y x \<le> 0"
    and tr: "\<And>x y z. c x y \<le> 0 \<Longrightarrow> c y z \<le> 0 \<Longrightarrow> c x z \<le> 0"
  shows "sorted_wrt (\<lambda>a b. c a b \<le> 0) (sortBy c xs)"
proof (induction xs)
  case Nil
  show ?case by (simp add: sortBy_def)
next
  case (Cons x xs)
  show ?case unfolding sortBy_Cons
    using tot tr Cons.IH by (rule sorted_insertBy)
qed

lemma insertBy_sorted: "\<forall>y\<in>set ys. c x y \<le> 0 \<Longrightarrow> insertBy c x ys = x # ys"
  by (cases ys) auto

lemma sortBy_Nil [simp]: "sortBy c [] = []"
  by (simp add: sortBy_def)

lemma sortBy_sorted: "sorted_wrt (\<lambda>a b. c a b \<le> 0) xs \<Longrightarrow> sortBy c xs = xs"
proof (induction xs)
  case Nil
  show ?case by simp
next
  case (Cons x xs)
  then have "sortBy c xs = xs" by simp
  then show ?case using Cons.prems by (simp add: sortBy_Cons insertBy_sorted)
qed

subsection \<open>Refilling positions\<close>

lemma refill_Nil [simp]: "refill P ts [] = ts"
  by (induction ts) auto

lemma length_refill [simp]: "length (refill P ts s) = length ts"
  by (induction ts arbitrary: s) (auto split: list.splits)

lemma refill_filter [simp]: "refill P ts (filter P ts) = ts"
  by (induction ts) auto

lemma filter_refill:
  "length s = length (filter P ts) \<Longrightarrow> \<forall>x\<in>set s. P x \<Longrightarrow> filter P (refill P ts s) = s"
proof (induction ts arbitrary: s)
  case Nil
  then show ?case by simp
next
  case (Cons t ts)
  then show ?case by (cases s) (auto split: list.splits)
qed

lemma refill_nth_other:
  "i < length ts \<Longrightarrow> \<not> P (ts ! i) \<Longrightarrow> refill P ts s ! i = ts ! i"
proof (induction ts arbitrary: s i)
  case Nil
  then show ?case by simp
next
  case (Cons t ts)
  then show ?case by (cases i; cases s) (auto split: list.splits)
qed

lemma refill_nth_child:
  "i < length ts \<Longrightarrow> P (ts ! i) \<Longrightarrow> \<forall>x\<in>set s. P x \<Longrightarrow> P (refill P ts s ! i)"
proof (induction ts arbitrary: s i)
  case Nil
  then show ?case by simp
next
  case (Cons t ts)
  then show ?case by (cases i; cases s) (auto split: list.splits)
qed

lemma sorted_wrt_filter_nth:
  "sorted_wrt R (filter P xs) \<Longrightarrow> i < j \<Longrightarrow> j < length xs \<Longrightarrow> P (xs ! i) \<Longrightarrow> P (xs ! j)
   \<Longrightarrow> R (xs ! i) (xs ! j)"
proof (induction xs arbitrary: i j)
  case Nil
  then show ?case by simp
next
  case (Cons x xs)
  show ?case
  proof (cases i)
    case 0
    then obtain j' where j: "j = Suc j'" using Cons.prems(2) by (cases j) auto
    then have "xs ! j' \<in> set (filter P xs)" using Cons.prems by auto
    then show ?thesis using 0 j Cons.prems by auto
  next
    case (Suc i')
    then obtain j' where j: "j = Suc j'" using Cons.prems(2) by (cases j) auto
    have "sorted_wrt R (filter P xs)" using Cons.prems(1) by (auto split: if_splits)
    then have "R (xs ! i') (xs ! j')" using Cons.prems Suc j by (intro Cons.IH) auto
    then show ?thesis using Suc j by simp
  qed
qed

subsection \<open>The index loop of the source refills the child positions\<close>

lemma childEntries_from:
  "map task (List.map_filter
       (\<lambda>(i, t). case parseChildTaskId (id' t) of
                    None \<Rightarrow> None
                  | Some p \<Rightarrow> Some \<lparr>index = i, task = t, parsed = p\<rparr>)
       (enumerate n ts)) = filter isChild ts"
  by (induction ts arbitrary: n) (auto simp: List.map_filter_def isChild_def split: option.splits)

lemma task_childEntriesOf: "map task (childEntriesOf ts) = filter isChild ts"
  by (simp add: childEntriesOf_def childEntries_from)

lemma parsed_childEntriesOf:
  "e \<in> set (childEntriesOf ts) \<Longrightarrow> parseChildTaskId (id' (task e)) = Some (parsed e)"
  by (auto simp: childEntriesOf_def List.map_filter_def split: option.splits)

lemma fold_update_refill:
  "length pre = n \<Longrightarrow>
   fold (\<lambda>(originalEntry, sortedTask) result. result[index originalEntry := sortedTask])
     (zip (List.map_filter
       (\<lambda>(i, t). case parseChildTaskId (id' t) of
                    None \<Rightarrow> None
                  | Some p \<Rightarrow> Some \<lparr>index = i, task = t, parsed = p\<rparr>)
       (enumerate n ts)) s) (pre @ ts)
   = pre @ refill isChild ts s"
proof (induction ts arbitrary: n pre s)
  case Nil
  then show ?case by (simp add: List.map_filter_def)
next
  case (Cons t ts)
  show ?case
  proof (cases "parseChildTaskId (id' t)")
    case None
    then have nc: "\<not> isChild t" by (simp add: isChild_def)
    have "length (pre @ [t]) = Suc n" using Cons.prems by simp
    from Cons.IH [OF this, of s] show ?thesis using None nc
      by (simp add: List.map_filter_def)
  next
    case (Some p)
    then have ch: "isChild t" by (simp add: isChild_def)
    show ?thesis
    proof (cases s)
      case Nil
      then show ?thesis using ch by simp
    next
      case (Cons x xs)
      have "length (pre @ [x]) = Suc n" using Cons.prems by simp
      from Cons.IH [OF this, of xs] show ?thesis using Some ch Cons Cons.prems
        by (simp add: List.map_filter_def list_update_append)
    qed
  qed
qed

lemma sortDotted_refill:
  "sortDottedChildTaskIds lc ts = refill isChild ts (sortBy (cmpTask lc) (filter isChild ts))"
proof -
  let ?es = "childEntriesOf ts"
  let ?c = "\<lambda>a b. compareParsedChildIds lc (parsed a) (parsed b)"
  have m: "map task (sortBy ?c ?es) = sortBy (cmpTask lc) (filter isChild ts)"
  proof -
    have "\<forall>x\<in>set ?es. \<forall>y\<in>set ?es. ?c x y = cmpTask lc (task x) (task y)"
      by (simp add: cmpTask_def parsed_childEntriesOf)
    then have "map task (sortBy ?c ?es) = sortBy (cmpTask lc) (map task ?es)"
      by (rule map_sortBy)
    then show ?thesis by (simp add: task_childEntriesOf)
  qed
  have small: "length xs < 2 \<Longrightarrow> sortBy c xs = xs" for c and xs :: "'b list"
    by (cases xs; cases "tl xs") (auto simp: sortBy_def)
  have len: "length ?es = length (filter isChild ts)"
    using task_childEntriesOf [of ts] by (metis length_map)
  show ?thesis
  proof (cases "length ts < 2 \<or> length ?es < 2")
    case True
    then have "length (filter isChild ts) < 2"
      using len length_filter_le [of isChild ts] by linarith
    then have "sortBy (cmpTask lc) (filter isChild ts) = filter isChild ts" by (rule small)
    then show ?thesis using True by (auto simp: sortDottedChildTaskIds_def Let_def)
  next
    case False
    have "fold (\<lambda>(originalEntry, sortedTask) result. result[index originalEntry := sortedTask])
            (zip ?es (map task (sortBy ?c ?es))) ([] @ ts)
          = [] @ refill isChild ts (map task (sortBy ?c ?es))"
      unfolding childEntriesOf_def by (rule fold_update_refill) simp
    then show ?thesis using False m by (simp add: sortDottedChildTaskIds_def Let_def)
  qed
qed

subsection \<open>The comparator is a total preorder\<close>

lemma consistent_flip: "consistentComparator lc \<Longrightarrow> (lc a b < 0) = (0 < lc b a)"
  by (simp add: consistentComparator_def)

lemma consistent_refl:
  assumes "consistentComparator lc"
  shows "lc a a = 0"
proof -
  have "(lc a a < 0) = (0 < lc a a)" using assms by (rule consistent_flip)
  then show ?thesis by presburger
qed

lemma consistent_sym0:
  assumes "consistentComparator lc" and "lc a b = 0"
  shows "lc b a = 0"
proof -
  have "(lc a b < 0) = (0 < lc b a)" and "(lc b a < 0) = (0 < lc a b)"
    using assms(1) by (rule consistent_flip)+
  then show ?thesis using assms(2) by presburger
qed

lemma consistent_total:
  assumes "consistentComparator lc" and "\<not> lc a b \<le> 0"
  shows "lc b a \<le> 0"
proof -
  have "(lc b a < 0) = (0 < lc a b)" using assms(1) by (rule consistent_flip)
  then show ?thesis using assms(2) by presburger
qed

lemma consistent_trans: "consistentComparator lc \<Longrightarrow> lc a b \<le> 0 \<Longrightarrow> lc b c \<le> 0 \<Longrightarrow> lc a c \<le> 0"
  unfolding consistentComparator_def by blast

lemma consistent_less_le:
  assumes c: "consistentComparator lc" and ab: "lc a b < 0" and bc: "lc b c \<le> 0"
  shows "lc a c < 0"
proof (rule ccontr)
  assume "\<not> lc a c < 0"
  moreover have "lc a c \<le> 0" using consistent_trans [OF c _ bc] ab by simp
  ultimately have "lc a c = 0" by simp
  then have "lc c a \<le> 0" using consistent_sym0 [OF c] by simp
  with bc have "lc b a \<le> 0" by (rule consistent_trans [OF c])
  moreover have "0 < lc b a" using consistent_flip [OF c, of a b] ab by presburger
  ultimately show False by simp
qed

lemma consistent_le_less:
  assumes c: "consistentComparator lc" and ab: "lc a b \<le> 0" and bc: "lc b c < 0"
  shows "lc a c < 0"
proof (rule ccontr)
  assume "\<not> lc a c < 0"
  moreover have "lc a c \<le> 0" using consistent_trans [OF c ab] bc by simp
  ultimately have "lc a c = 0" by simp
  then have "lc c a \<le> 0" using consistent_sym0 [OF c] by simp
  then have "lc c b \<le> 0" using ab by (rule consistent_trans [OF c])
  moreover have "0 < lc c b" using consistent_flip [OF c, of b c] bc by presburger
  ultimately show False by simp
qed

lemma compare_le_iff:
  "compareParsedChildIds lc a b \<le> 0 \<longleftrightarrow>
     lc (prefix a) (prefix b) < 0
     \<or> (lc (prefix a) (prefix b) = 0
        \<and> (issueNumber a < issueNumber b
           \<or> (issueNumber a = issueNumber b \<and> lc (rawId a) (rawId b) \<le> 0)))"
  by (auto simp: compareParsedChildIds_def Let_def)

lemma compare_total:
  assumes c: "consistentComparator lc" and n: "\<not> compareParsedChildIds lc a b \<le> 0"
  shows "compareParsedChildIds lc b a \<le> 0"
proof -
  have p: "\<not> lc (prefix a) (prefix b) < 0" using n by (simp add: compare_le_iff)
  show ?thesis
  proof (cases "lc (prefix a) (prefix b) = 0")
    case True
    then have q: "lc (prefix b) (prefix a) = 0" by (rule consistent_sym0 [OF c])
    have "issueNumber b < issueNumber a \<or> (issueNumber b = issueNumber a \<and> \<not> lc (rawId a) (rawId b) \<le> 0)"
      using n True by (auto simp: compare_le_iff)
    then show ?thesis using q consistent_total [OF c, of "rawId a" "rawId b"]
      by (auto simp: compare_le_iff)
  next
    case False
    with p have "0 < lc (prefix a) (prefix b)" by simp
    then have "lc (prefix b) (prefix a) < 0" using consistent_flip [OF c, of "prefix b" "prefix a"] by presburger
    then show ?thesis by (simp add: compare_le_iff)
  qed
qed

lemma compare_trans:
  assumes c: "consistentComparator lc"
    and ab: "compareParsedChildIds lc a b \<le> 0" and bc: "compareParsedChildIds lc b d \<le> 0"
  shows "compareParsedChildIds lc a d \<le> 0"
proof -
  have pab: "lc (prefix a) (prefix b) \<le> 0" using ab by (auto simp: compare_le_iff)
  have pbd: "lc (prefix b) (prefix d) \<le> 0" using bc by (auto simp: compare_le_iff)
  show ?thesis
  proof (cases "lc (prefix a) (prefix b) < 0 \<or> lc (prefix b) (prefix d) < 0")
    case True
    then have "lc (prefix a) (prefix d) < 0"
      using consistent_less_le [OF c _ pbd] consistent_le_less [OF c pab] by blast
    then show ?thesis by (simp add: compare_le_iff)
  next
    case False
    then have e1: "lc (prefix a) (prefix b) = 0" and e2: "lc (prefix b) (prefix d) = 0"
      using pab pbd by auto
    have "lc (prefix a) (prefix d) \<le> 0" using consistent_trans [OF c pab pbd] .
    moreover have "lc (prefix d) (prefix a) \<le> 0"
      using consistent_trans [OF c, of "prefix d" "prefix b" "prefix a"]
        consistent_sym0 [OF c e1] consistent_sym0 [OF c e2] by simp
    ultimately have e3: "lc (prefix a) (prefix d) = 0"
      using consistent_flip [OF c, of "prefix a" "prefix d"] by presburger
    have n1: "issueNumber a < issueNumber b \<or> (issueNumber a = issueNumber b \<and> lc (rawId a) (rawId b) \<le> 0)"
      using ab e1 by (auto simp: compare_le_iff)
    have n2: "issueNumber b < issueNumber d \<or> (issueNumber b = issueNumber d \<and> lc (rawId b) (rawId d) \<le> 0)"
      using bc e2 by (auto simp: compare_le_iff)
    from n1 n2 have "issueNumber a < issueNumber d
        \<or> (issueNumber a = issueNumber d \<and> lc (rawId a) (rawId d) \<le> 0)"
      using consistent_trans [OF c, of "rawId a" "rawId b" "rawId d"] by auto
    then show ?thesis using e3 by (simp add: compare_le_iff)
  qed
qed

lemma sorted_children:
  assumes c: "consistentComparator lc"
  shows "sorted_wrt (\<lambda>s t. cmpTask lc s t \<le> 0) (sortBy (cmpTask lc) xs)"
proof (rule sorted_sortBy)
  show "\<And>x y. \<not> cmpTask lc x y \<le> 0 \<Longrightarrow> cmpTask lc y x \<le> 0"
    unfolding cmpTask_def by (rule compare_total [OF c])
  show "\<And>x y z. cmpTask lc x y \<le> 0 \<Longrightarrow> cmpTask lc y z \<le> 0 \<Longrightarrow> cmpTask lc x z \<le> 0"
    unfolding cmpTask_def by (rule compare_trans [OF c])
qed

lemma children_of_sorted:
  "filter isChild (sortDottedChildTaskIds lc ts) = sortBy (cmpTask lc) (filter isChild ts)"
  unfolding sortDotted_refill by (rule filter_refill) simp_all

text \<open>
  C7. For a consistent \<open>localeCompare\<close>: ordering twice gives what ordering once
  gives; the list keeps its length, every task whose id is not dotted stays at its
  position, and every position of a dotted id holds a dotted id; and of two dotted ids of
  the result with the same prefix, the earlier one has the smaller or equal number.
\<close>

theorem C7_dotted_child_ordering:
  assumes c: "consistentComparator localeCompare"
  shows "sortDottedChildTaskIds localeCompare (sortDottedChildTaskIds localeCompare tasks)
           = sortDottedChildTaskIds localeCompare tasks
         \<and> length (sortDottedChildTaskIds localeCompare tasks) = length tasks
         \<and> (\<forall>i < length tasks. parseChildTaskId (id' (tasks ! i)) = None
               \<longrightarrow> sortDottedChildTaskIds localeCompare tasks ! i = tasks ! i)
         \<and> (\<forall>i < length tasks. parseChildTaskId (id' (tasks ! i)) \<noteq> None
               \<longrightarrow> parseChildTaskId (id' (sortDottedChildTaskIds localeCompare tasks ! i)) \<noteq> None)
         \<and> (\<forall>i j a b. i < j \<and> j < length tasks
               \<and> parseChildTaskId (id' (sortDottedChildTaskIds localeCompare tasks ! i)) = Some a
               \<and> parseChildTaskId (id' (sortDottedChildTaskIds localeCompare tasks ! j)) = Some b
               \<and> prefix a = prefix b
               \<longrightarrow> issueNumber a \<le> issueNumber b)"
proof -
  let ?r = "sortDottedChildTaskIds localeCompare tasks"
  let ?S = "sortBy (cmpTask localeCompare) (filter isChild tasks)"
  have r: "?r = refill isChild tasks ?S" by (rule sortDotted_refill)
  have ch: "filter isChild ?r = ?S" by (rule children_of_sorted)
  have sorted: "sorted_wrt (\<lambda>s t. cmpTask localeCompare s t \<le> 0) ?S" by (rule sorted_children [OF c])
  have idem: "sortDottedChildTaskIds localeCompare ?r = ?r"
  proof -
    have "sortDottedChildTaskIds localeCompare ?r
            = refill isChild ?r (sortBy (cmpTask localeCompare) (filter isChild ?r))"
      by (rule sortDotted_refill)
    also have "sortBy (cmpTask localeCompare) (filter isChild ?r) = filter isChild ?r"
      unfolding ch using sorted by (rule sortBy_sorted)
    also have "refill isChild ?r (filter isChild ?r) = ?r" by simp
    finally show ?thesis .
  qed
  have len: "length ?r = length tasks" by (simp add: r)
  have other: "\<forall>i < length tasks. parseChildTaskId (id' (tasks ! i)) = None \<longrightarrow> ?r ! i = tasks ! i"
  proof (intro allI impI)
    fix i assume "i < length tasks" and "parseChildTaskId (id' (tasks ! i)) = None"
    then have "i < length tasks" and "\<not> isChild (tasks ! i)" unfolding isChild_def by blast+
    then have "refill isChild tasks ?S ! i = tasks ! i" by (rule refill_nth_other)
    then show "?r ! i = tasks ! i" by (simp only: r)
  qed
  have child: "\<forall>i < length tasks. parseChildTaskId (id' (tasks ! i)) \<noteq> None
                 \<longrightarrow> parseChildTaskId (id' (?r ! i)) \<noteq> None"
  proof (intro allI impI)
    fix i assume "i < length tasks" and "parseChildTaskId (id' (tasks ! i)) \<noteq> None"
    then have "i < length tasks" and "isChild (tasks ! i)" unfolding isChild_def by blast+
    moreover have "\<forall>x\<in>set ?S. isChild x" by simp
    ultimately have "isChild (refill isChild tasks ?S ! i)" by (rule refill_nth_child)
    then have "isChild (?r ! i)" by (simp only: r)
    then show "parseChildTaskId (id' (?r ! i)) \<noteq> None" unfolding isChild_def .
  qed
  have asc: "issueNumber a \<le> issueNumber b"
    if "i < j" "j < length tasks" "parseChildTaskId (id' (?r ! i)) = Some a"
       "parseChildTaskId (id' (?r ! j)) = Some b" "prefix a = prefix b" for i j a b
  proof -
    have s: "sorted_wrt (\<lambda>s t. cmpTask localeCompare s t \<le> 0) (filter isChild ?r)"
      using sorted ch by simp
    have ci: "isChild (?r ! i)" and cj: "isChild (?r ! j)" using that by (simp_all add: isChild_def)
    have j: "j < length ?r" using that(2) len by simp
    have "cmpTask localeCompare (?r ! i) (?r ! j) \<le> 0"
      using s that(1) j ci cj by (rule sorted_wrt_filter_nth)
    then have "compareParsedChildIds localeCompare a b \<le> 0" using that by (simp add: cmpTask_def)
    moreover have "localeCompare (prefix a) (prefix b) = 0"
      using that(5) consistent_refl [OF c] by simp
    ultimately show ?thesis by (auto simp: compare_le_iff)
  qed
  show ?thesis using idem len other child asc by blast
qed

lemma consistent_codeUnitCompare: "consistentComparator codeUnitCompare"
proof -
  have lin: "ord_class.lexordp a b \<or> a = b \<or> ord_class.lexordp b a" for a b :: jsstring
    by (rule lexordp_linear)
  have asym: "ord_class.lexordp a b \<Longrightarrow> \<not> ord_class.lexordp b a" for a b :: jsstring
    by (auto dest: lexordp_antisym)
  have irr: "\<not> ord_class.lexordp a a" for a :: jsstring
    by (rule lexordp_irreflexive') 
  have tr: "ord_class.lexordp a b \<Longrightarrow> ord_class.lexordp b d \<Longrightarrow> ord_class.lexordp a d"
    for a b d :: jsstring
    by (rule lexordp_trans)
  have 1: "(codeUnitCompare a b < 0) = (0 < codeUnitCompare b a)" for a b
    using lin [of a b] asym [of a b] asym [of b a] irr [of a] by (auto simp: codeUnitCompare_def)
  have 2: "codeUnitCompare a d \<le> 0" if "codeUnitCompare a b \<le> 0" "codeUnitCompare b d \<le> 0" for a b d
    using that tr [of a b d] by (auto simp: codeUnitCompare_def split: if_splits)
  show ?thesis unfolding consistentComparator_def using 1 2 by blast
qed

lemmas c7_eval = sortDottedChildTaskIds_def childEntriesOf_def List.map_filter_def enumerate_eq_zip parseChildTaskId_def
    isDigit_def u16_def isLineTerminator_def toDouble_def digitsValue_def sortBy_def compareParsedChildIds_def codeUnitCompare_def

theorem C7_dotted_child_ordering_witness:
  "consistentComparator codeUnitCompare
   \<and> sortDottedChildTaskIds codeUnitCompare
        [\<lparr>id' = u16 ''a.10''\<rparr>, \<lparr>id' = u16 ''b''\<rparr>, \<lparr>id' = u16 ''a.2''\<rparr>]
      = [\<lparr>id' = u16 ''a.2''\<rparr>, \<lparr>id' = u16 ''b''\<rparr>, \<lparr>id' = u16 ''a.10''\<rparr>]
   \<and> sortDottedChildTaskIds codeUnitCompare
        (sortDottedChildTaskIds codeUnitCompare
          [\<lparr>id' = u16 ''a.10''\<rparr>, \<lparr>id' = u16 ''b''\<rparr>, \<lparr>id' = u16 ''a.2''\<rparr>])
      = sortDottedChildTaskIds codeUnitCompare
          [\<lparr>id' = u16 ''a.10''\<rparr>, \<lparr>id' = u16 ''b''\<rparr>, \<lparr>id' = u16 ''a.2''\<rparr>]"
proof -
  have e: "sortDottedChildTaskIds codeUnitCompare
        [\<lparr>id' = u16 ''a.10''\<rparr>, \<lparr>id' = u16 ''b''\<rparr>, \<lparr>id' = u16 ''a.2''\<rparr>]
      = [\<lparr>id' = u16 ''a.2''\<rparr>, \<lparr>id' = u16 ''b''\<rparr>, \<lparr>id' = u16 ''a.10''\<rparr>]"
    by (simp add: c7_eval)
  show ?thesis
    using C7_dotted_child_ordering [OF consistent_codeUnitCompare,
        of "[\<lparr>id' = u16 ''a.10''\<rparr>, \<lparr>id' = u16 ''b''\<rparr>, \<lparr>id' = u16 ''a.2''\<rparr>]"]
      consistent_codeUnitCompare e
    by simp
qed

section \<open>Resolving the session to resume\<close>



section \<open>Preserving iteration logs\<close>

lemma lookup_Cons: "lookup ((q, n) # fs) p = (if p = [] then Some Dir else if p = q then Some n else lookup fs p)"
  by (simp add: lookup_def)

lemma lookup_root [simp]: "lookup fs [] = Some Dir"
  by (simp add: lookup_def)

lemma extends_refl [simp]: "extends fs fs"
  by (simp add: extends_def)

lemma extends_trans: "extends a b \<Longrightarrow> extends b c \<Longrightarrow> extends a c"
  by (auto simp: extends_def)

lemma extends_new: "lookup fs q = None \<Longrightarrow> extends fs ((q, n) # fs)"
  by (auto simp: extends_def lookup_Cons)

lemma mkdir_fold_extends:
  "extends fs (foldl (\<lambda>fs' q. if lookup fs' q = None then (q, Dir) # fs' else fs') fs qs)"
proof (induction qs arbitrary: fs)
  case Nil
  show ?case by simp
next
  case (Cons q qs)
  let ?fs1 = "if lookup fs q = None then (q, Dir) # fs else fs"
  have "extends fs ?fs1" by (simp add: extends_new)
  moreover have "extends ?fs1 (foldl (\<lambda>fs' q. if lookup fs' q = None then (q, Dir) # fs' else fs') ?fs1 qs)"
    by (rule Cons.IH)
  ultimately show ?case unfolding foldl_Cons by (rule extends_trans)
qed

lemma mkdir_extends: "mkdirSyncRecursive fs p = Inr fs' \<Longrightarrow> extends fs fs'"
  by (auto simp: mkdirSyncRecursive_def mkdir_fold_extends split: if_splits)

lemma isFile_iff: "isFile x \<longleftrightarrow> (\<exists>c. x = Some (File c))"
  by (cases x rule: isFile.cases) auto

declare copyLogFiles.simps(2) [simp del]

lemmas copyLogFiles_Cons = copyLogFiles.simps(2)

lemma copyFile_extends:
  "lookup fs dest = None \<Longrightarrow> copyFileSync fs src dest = Inr fs' \<Longrightarrow> extends fs fs'"
  by (auto simp: copyFileSync_def extends_new split: option.splits node.splits if_splits)

lemma copyLogFiles_extends: "extends fs (copyLogFiles W M files fs)"
proof (induction files arbitrary: fs)
  case Nil
  show ?case by simp
next
  case (Cons ent files)
  show ?case
  proof (cases "endsWith ent (u16 ''.log'') \<and> \<not> existsSync fs (M @ [ent])")
    case False
    then show ?thesis using Cons.IH [of fs] by (auto simp: copyLogFiles_Cons Let_def)
  next
    case True
    show ?thesis
    proof (cases "copyFileSync fs (W @ [ent]) (M @ [ent])")
      case (Inl e)
      then show ?thesis using True by (simp add: copyLogFiles_Cons Let_def)
    next
      case (Inr fs')
      have "lookup fs (M @ [ent]) = None" using True by (simp add: existsSync_def)
      then have "extends fs fs'" using Inr by (rule copyFile_extends)
      moreover have "extends fs' (copyLogFiles W M files fs')" by (rule Cons.IH)
      ultimately have "extends fs (copyLogFiles W M files fs')" by (rule extends_trans)
      then show ?thesis using True Inr by (simp add: copyLogFiles_Cons Let_def)
    qed
  qed
qed

lemma copyLogFiles_only_logs:
  "lookup fs p = None \<Longrightarrow> lookup (copyLogFiles W M files fs) p = Some n
   \<Longrightarrow> \<exists>file\<in>set files. p = M @ [file] \<and> endsWith file (u16 ''.log'')
         \<and> isFile (Some n) \<and> lookup fs (W @ [file]) = Some n"
proof (induction files arbitrary: fs)
  case Nil
  then show ?case by simp
next
  case (Cons ent files)
  show ?case
  proof (cases "endsWith ent (u16 ''.log'') \<and> \<not> existsSync fs (M @ [ent])")
    case False
    then have "copyLogFiles W M (ent # files) fs = copyLogFiles W M files fs"
      by (auto simp: copyLogFiles_Cons Let_def)
    then show ?thesis using Cons.IH [of fs] Cons.prems by auto
  next
    case True
    show ?thesis
    proof (cases "copyFileSync fs (W @ [ent]) (M @ [ent])")
      case (Inl e)
      then have "copyLogFiles W M (ent # files) fs = fs" using True by (simp add: copyLogFiles_Cons Let_def)
      then show ?thesis using Cons.prems by simp
    next
      case (Inr fs')
      then obtain c where src: "lookup fs (W @ [ent]) = Some (File c)"
        and fs': "fs' = (M @ [ent], File c) # fs"
        by (auto simp: copyFileSync_def split: option.splits node.splits if_splits)
      have fin: "copyLogFiles W M (ent # files) fs = copyLogFiles W M files fs'"
        using True Inr by (simp add: copyLogFiles_Cons Let_def)
      have dest: "lookup fs (M @ [ent]) = None" using True by (simp add: existsSync_def)
      show ?thesis
      proof (cases "p = M @ [ent]")
        case True
        have "extends fs' (copyLogFiles W M files fs')" by (rule copyLogFiles_extends)
        moreover have "lookup fs' p = Some (File c)" using True fs' by (simp add: lookup_Cons)
        ultimately have "lookup (copyLogFiles W M files fs') p = Some (File c)"
          by (simp add: extends_def)
        then have "n = File c" using Cons.prems(2) fin by simp
        then show ?thesis using True \<open>endsWith ent (u16 ''.log'') \<and> \<not> existsSync fs (M @ [ent])\<close> src
          by auto
      next
        case False
        then have "lookup fs' p = None" using Cons.prems(1) fs' by (auto simp: lookup_Cons)
        moreover have "lookup (copyLogFiles W M files fs') p = Some n" using Cons.prems(2) fin by simp
        ultimately obtain f where f: "f \<in> set files" "p = M @ [f]" "endsWith f (u16 ''.log'')"
            "isFile (Some n)" "lookup fs' (W @ [f]) = Some n"
          using Cons.IH [of fs'] by blast
        have "W @ [f] \<noteq> M @ [ent]"
        proof
          assume e: "W @ [f] = M @ [ent]"
          then have "W @ [ent] = M @ [ent]" by simp
          then show False using src dest by simp
        qed
        then have "lookup fs (W @ [f]) = Some n" using f(5) fs' by (simp add: lookup_Cons split: if_splits)
        then show ?thesis using f by auto
      qed
    qed
  qed
qed

lemma copyLogFiles_complete:
  assumes "lookup fs M = Some Dir"
    and "\<forall>f\<in>set files. endsWith f (u16 ''.log'') \<longrightarrow> isFile (lookup fs (W @ [f]))"
    and "f \<in> set files" and "endsWith f (u16 ''.log'')"
  shows "lookup (copyLogFiles W M files fs) (M @ [f])
           = (if lookup fs (M @ [f]) = None then lookup fs (W @ [f]) else lookup fs (M @ [f]))"
  using assms
proof (induction files arbitrary: fs)
  case Nil
  then show ?case by simp
next
  case (Cons ent files)
  have ext: "extends fs (copyLogFiles W M (ent # files) fs)" by (rule copyLogFiles_extends)
  show ?case
  proof (cases "endsWith ent (u16 ''.log'') \<and> \<not> existsSync fs (M @ [ent])")
    case False
    then have fin: "copyLogFiles W M (ent # files) fs = copyLogFiles W M files fs"
      by (auto simp: copyLogFiles_Cons Let_def)
    show ?thesis
    proof (cases "f = ent")
      case True
      then have ne: "lookup fs (M @ [f]) \<noteq> None" using False Cons.prems(4) by (simp add: existsSync_def)
      then have "lookup (copyLogFiles W M (ent # files) fs) (M @ [f]) = lookup fs (M @ [f])"
        using ext unfolding extends_def by blast
      then show ?thesis using ne by auto
    next
      case False
      then have "f \<in> set files" using Cons.prems(3) by simp
      then show ?thesis using Cons.IH [of fs] Cons.prems fin by simp
    qed
  next
    case True
    then have dest: "lookup fs (M @ [ent]) = None" by (simp add: existsSync_def)
    obtain c where src: "lookup fs (W @ [ent]) = Some (File c)"
      using Cons.prems(2) True by (auto simp: isFile_iff)
    have par: "butlast (M @ [ent]) = M" by simp
    have cp: "copyFileSync fs (W @ [ent]) (M @ [ent]) = Inr ((M @ [ent], File c) # fs)"
      using src dest Cons.prems(1) by (simp add: copyFileSync_def)
    let ?fs' = "(M @ [ent], File c) # fs"
    have fin: "copyLogFiles W M (ent # files) fs = copyLogFiles W M files ?fs'"
      using True cp by (simp add: copyLogFiles_Cons Let_def)
    have e': "extends fs ?fs'" using dest by (rule extends_new)
    show ?thesis
    proof (cases "f = ent")
      case True
      have "extends ?fs' (copyLogFiles W M files ?fs')" by (rule copyLogFiles_extends)
      then have "lookup (copyLogFiles W M files ?fs') (M @ [ent]) = Some (File c)"
        by (simp add: extends_def lookup_Cons)
      then show ?thesis using True fin dest src by simp
    next
      case False
      then have fin': "f \<in> set files" using Cons.prems(3) by simp
      have M': "lookup ?fs' M = Some Dir" using Cons.prems(1) e' by (simp add: extends_def)
      have files': "\<forall>g\<in>set files. endsWith g (u16 ''.log'') \<longrightarrow> isFile (lookup ?fs' (W @ [g]))"
      proof (intro ballI impI)
        fix g assume "g \<in> set files" "endsWith g (u16 ''.log'')"
        then have "isFile (lookup fs (W @ [g]))" using Cons.prems(2) by simp
        then have "lookup fs (W @ [g]) \<noteq> None" by (auto simp: isFile_iff)
        then have "lookup ?fs' (W @ [g]) = lookup fs (W @ [g])" using e' by (simp add: extends_def)
        then show "isFile (lookup ?fs' (W @ [g]))" using \<open>isFile (lookup fs (W @ [g]))\<close> by simp
      qed
      have "lookup (copyLogFiles W M files ?fs') (M @ [f])
              = (if lookup ?fs' (M @ [f]) = None then lookup ?fs' (W @ [f]) else lookup ?fs' (M @ [f]))"
        using M' files' fin' Cons.prems(4) by (rule Cons.IH)
      moreover have "lookup ?fs' (M @ [f]) = lookup fs (M @ [f])" using False by (simp add: lookup_Cons)
      moreover have "lookup fs (W @ [f]) \<noteq> None"
        using Cons.prems(2) fin' Cons.prems(4) by (auto simp: isFile_iff)
      then have "lookup ?fs' (W @ [f]) = lookup fs (W @ [f])" using e' by (simp add: extends_def)
      ultimately show ?thesis using fin by simp
    qed
  qed
qed

lemma dirChainFrom_iff:
  "q \<in> set (dirChainFrom pre p) \<longleftrightarrow> (\<exists>n. 0 < n \<and> n \<le> length p \<and> q = pre @ take n p)"
proof (induction p arbitrary: pre)
  case Nil
  show ?case by simp
next
  case (Cons s rest)
  show ?case
  proof
    assume "q \<in> set (dirChainFrom pre (s # rest))"
    then consider "q = pre @ [s]" | "q \<in> set (dirChainFrom (pre @ [s]) rest)" by auto
    then show "\<exists>n. 0 < n \<and> n \<le> length (s # rest) \<and> q = pre @ take n (s # rest)"
    proof cases
      case 1
      then have "0 < (1::nat) \<and> 1 \<le> length (s # rest) \<and> q = pre @ take 1 (s # rest)" by simp
      then show ?thesis by blast
    next
      case 2
      then obtain n where "0 < n" "n \<le> length rest" "q = (pre @ [s]) @ take n rest"
        using Cons.IH by blast
      then have "0 < Suc n \<and> Suc n \<le> length (s # rest) \<and> q = pre @ take (Suc n) (s # rest)" by simp
      then show ?thesis by blast
    qed
  next
    assume "\<exists>n. 0 < n \<and> n \<le> length (s # rest) \<and> q = pre @ take n (s # rest)"
    then obtain n where n: "0 < n" "n \<le> length (s # rest)" "q = pre @ take n (s # rest)" by blast
    then obtain m where m: "n = Suc m" by (cases n) auto
    show "q \<in> set (dirChainFrom pre (s # rest))"
    proof (cases m)
      case 0
      then show ?thesis using n m by simp
    next
      case (Suc k)
      then have "0 < m \<and> m \<le> length rest \<and> q = (pre @ [s]) @ take m rest" using n m by simp
      then have "q \<in> set (dirChainFrom (pre @ [s]) rest)" using Cons.IH by blast
      then show ?thesis by simp
    qed
  qed
qed

lemma dirChain_iff: "q \<in> set (dirChain p) \<longleftrightarrow> (\<exists>n. 0 < n \<and> n \<le> length p \<and> q = take n p)"
  by (simp add: dirChain_def dirChainFrom_iff)

lemma dirChain_self: "p \<noteq> [] \<Longrightarrow> p \<in> set (dirChain p)"
  unfolding dirChain_iff by (rule exI [of _ "length p"]) simp

lemma dirChain_inside: "q \<in> set (dirChain p) \<Longrightarrow> isInside q p"
  by (auto simp: dirChain_iff isInside_def min_def)

lemma mkdir_fold_new:
  "lookup fs q = None \<Longrightarrow>
   lookup (foldl (\<lambda>fs' q. if lookup fs' q = None then (q, Dir) # fs' else fs') fs qs) q = Some n
   \<Longrightarrow> q \<in> set qs \<and> n = Dir"
proof (induction qs arbitrary: fs)
  case Nil
  then show ?case by simp
next
  case (Cons a qs)
  let ?fs1 = "if lookup fs a = None then (a, Dir) # fs else fs"
  let ?F = "foldl (\<lambda>fs' q. if lookup fs' q = None then (q, Dir) # fs' else fs')"
  have fin: "lookup (?F ?fs1 qs) q = Some n" using Cons.prems(2) by simp
  show ?case
  proof (cases "q = a")
    case True
    then have "lookup ?fs1 q = Some Dir" using Cons.prems(1) by (auto simp: lookup_Cons)
    moreover have "extends ?fs1 (?F ?fs1 qs)" by (rule mkdir_fold_extends)
    ultimately have "lookup (?F ?fs1 qs) q = Some Dir" unfolding extends_def by auto
    then show ?thesis using fin True by simp
  next
    case False
    then have "lookup ?fs1 q = None" using Cons.prems(1) by (auto simp: lookup_Cons)
    then have "q \<in> set qs \<and> n = Dir" using fin by (rule Cons.IH)
    then show ?thesis by simp
  qed
qed

lemma mkdir_new:
  "mkdirSyncRecursive fs p = Inr fs' \<Longrightarrow> lookup fs q = None \<Longrightarrow> lookup fs' q = Some n
   \<Longrightarrow> q \<in> set (dirChain p) \<and> n = Dir"
  by (auto simp: mkdirSyncRecursive_def split: if_splits dest: mkdir_fold_new)

lemma mkdir_fold_dirs:
  "\<forall>q\<in>set qs. \<not> isFile (lookup fs q) \<Longrightarrow> q \<in> set qs \<Longrightarrow>
   lookup (foldl (\<lambda>fs' q. if lookup fs' q = None then (q, Dir) # fs' else fs') fs qs) q = Some Dir"
proof (induction qs arbitrary: fs)
  case Nil
  then show ?case by simp
next
  case (Cons a qs)
  let ?fs1 = "if lookup fs a = None then (a, Dir) # fs else fs"
  let ?F = "foldl (\<lambda>fs' q. if lookup fs' q = None then (q, Dir) # fs' else fs')"
  have a: "lookup ?fs1 a = Some Dir"
  proof (cases "lookup fs a")
    case None
    then show ?thesis by (auto simp: lookup_Cons)
  next
    case (Some n)
    moreover have "\<not> isFile (lookup fs a)" using Cons.prems(1) by simp
    ultimately have "n = Dir" by (cases n) auto
    then show ?thesis using Some by simp
  qed
  have nf: "\<forall>q\<in>set qs. \<not> isFile (lookup ?fs1 q)"
    using Cons.prems(1) by (auto simp: lookup_Cons)
  show ?case
  proof (cases "q \<in> set qs")
    case True
    with nf have "lookup (?F ?fs1 qs) q = Some Dir" by (rule Cons.IH)
    then show ?thesis by simp
  next
    case False
    then have "q = a" using Cons.prems(2) by simp
    moreover have "extends ?fs1 (?F ?fs1 qs)" by (rule mkdir_fold_extends)
    ultimately have "lookup (?F ?fs1 qs) q = Some Dir" using a unfolding extends_def by auto
    then show ?thesis by simp
  qed
qed

lemma mkdir_creates: "mkdirSyncRecursive fs p = Inr fs' \<Longrightarrow> lookup fs' p = Some Dir"
proof (cases "p = []")
  case True
  then show ?thesis by simp
next
  case False
  assume "mkdirSyncRecursive fs p = Inr fs'"
  then have nf: "\<forall>q\<in>set (dirChain p). \<not> isFile (lookup fs q)"
    and fs': "fs' = foldl (\<lambda>fs' q. if lookup fs' q = None then (q, Dir) # fs' else fs') fs (dirChain p)"
    by (auto simp: mkdirSyncRecursive_def list_ex_iff split: if_splits)
  show ?thesis unfolding fs' using nf dirChain_self [OF False] by (rule mkdir_fold_dirs)
qed

lemma mkdir_succeeds:
  "\<not> list_ex (\<lambda>q. isFile (lookup fs q)) (dirChain p) \<Longrightarrow> \<exists>fs'. mkdirSyncRecursive fs p = Inr fs'"
  by (simp add: mkdirSyncRecursive_def)

lemma readdir_iff:
  assumes "readdirSync fs d = Inr names"
  shows "name \<in> set names \<longleftrightarrow> lookup fs (d @ [name]) \<noteq> None"
proof -
  have names: "names = remdups (map (\<lambda>(p, _). last p) (filter (\<lambda>(p, _). p \<noteq> [] \<and> butlast p = d) fs))"
    using assms by (auto simp: readdirSync_def split: option.splits node.splits)
  have "lookup fs (d @ [name]) \<noteq> None \<longleftrightarrow> d @ [name] \<in> fst ` set fs"
    by (simp add: lookup_def map_of_eq_None_iff)
  also have "\<dots> \<longleftrightarrow> name \<in> set names"
  proof
    assume "d @ [name] \<in> fst ` set fs"
    then obtain n where "(d @ [name], n) \<in> set fs" by auto
    then have "(d @ [name], n) \<in> set (filter (\<lambda>(p, _). p \<noteq> [] \<and> butlast p = d) fs)" by simp
    then have "last (d @ [name]) \<in> set names" unfolding names set_remdups set_map by force
    then show "name \<in> set names" by simp
  next
    assume "name \<in> set names"
    then obtain p n where "(p, n) \<in> set fs" "p \<noteq> []" "butlast p = d" "name = last p"
      unfolding names by auto
    moreover from this have "p = d @ [name]" using append_butlast_last_id by metis
    ultimately show "d @ [name] \<in> fst ` set fs" by force
  qed
  finally show ?thesis by simp
qed

lemma preserve_cases:
  "preserveIterationLogs mainCwd worktreePath fs = fs
   \<or> (\<exists>fs1. mkdirSyncRecursive fs (iterationsDir mainCwd) = Inr fs1
        \<and> (preserveIterationLogs mainCwd worktreePath fs = fs1
           \<or> (\<exists>logFiles. readdirSync fs1 (iterationsDir worktreePath) = Inr logFiles
                \<and> preserveIterationLogs mainCwd worktreePath fs
                    = copyLogFiles (iterationsDir worktreePath) (iterationsDir mainCwd) logFiles fs1)))"
  by (auto simp: preserveIterationLogs_def Let_def split: sum.splits)

lemma preserve_extends: "extends fs (preserveIterationLogs mainCwd worktreePath fs)"
proof -
  let ?W = "iterationsDir worktreePath" and ?M = "iterationsDir mainCwd"
  let ?r = "preserveIterationLogs mainCwd worktreePath fs"
  from preserve_cases [of mainCwd worktreePath fs]
  consider "?r = fs"
    | fs1 where "mkdirSyncRecursive fs ?M = Inr fs1" "?r = fs1"
    | fs1 logFiles where "mkdirSyncRecursive fs ?M = Inr fs1"
        "?r = copyLogFiles ?W ?M logFiles fs1"
    by blast
  then show ?thesis
  proof cases
    case 1
    then show ?thesis by simp
  next
    case 2
    then show ?thesis using mkdir_extends by simp
  next
    case 3
    have "extends fs fs1" using 3(1) by (rule mkdir_extends)
    moreover have "extends fs1 (copyLogFiles ?W ?M logFiles fs1)" by (rule copyLogFiles_extends)
    ultimately show ?thesis unfolding 3(2) by (rule extends_trans)
  qed
qed

lemma preserve_only_logs:
  assumes "lookup fs p = None"
    and "lookup (preserveIterationLogs mainCwd worktreePath fs) p = Some (File c)"
  shows "\<exists>file. p = iterationsDir mainCwd @ [file] \<and> endsWith file (u16 ''.log'')
            \<and> lookup fs (iterationsDir worktreePath @ [file]) = Some (File c)"
proof -
  let ?W = "iterationsDir worktreePath" and ?M = "iterationsDir mainCwd"
  let ?r = "preserveIterationLogs mainCwd worktreePath fs"
  from preserve_cases [of mainCwd worktreePath fs]
  consider "?r = fs"
    | fs1 where "mkdirSyncRecursive fs ?M = Inr fs1" "?r = fs1"
    | fs1 logFiles where "mkdirSyncRecursive fs ?M = Inr fs1"
        "?r = copyLogFiles ?W ?M logFiles fs1"
    by blast
  then show ?thesis
  proof cases
    case 1
    then show ?thesis using assms by simp
  next
    case 2
    then show ?thesis using assms mkdir_new [of fs ?M fs1 p "File c"] by auto
  next
    case 3
    have fin: "lookup (copyLogFiles ?W ?M logFiles fs1) p = Some (File c)" using assms(2) 3(2) by simp
    have p1: "lookup fs1 p = None"
    proof (rule ccontr)
      assume "lookup fs1 p \<noteq> None"
      then obtain n where n: "lookup fs1 p = Some n" by auto
      then have "n = Dir" using mkdir_new [OF 3(1) assms(1)] by simp
      moreover have "lookup (copyLogFiles ?W ?M logFiles fs1) p = lookup fs1 p"
        using copyLogFiles_extends [of fs1 ?W ?M logFiles] n unfolding extends_def by auto
      ultimately show False using fin n by simp
    qed
    then obtain f where f: "p = ?M @ [f]" "endsWith f (u16 ''.log'')" "lookup fs1 (?W @ [f]) = Some (File c)"
      using copyLogFiles_only_logs [OF p1 fin] by blast
    have "lookup fs (?W @ [f]) = Some (File c)"
    proof (cases "lookup fs (?W @ [f])")
      case None
      then show ?thesis using mkdir_new [OF 3(1) None f(3)] by simp
    next
      case (Some n)
      then show ?thesis using mkdir_extends [OF 3(1)] f(3) unfolding extends_def by auto
    qed
    then show ?thesis using f by blast
  qed
qed

lemma preserve_complete:
  assumes W: "lookup fs (iterationsDir worktreePath) = Some Dir"
    and M: "\<not> list_ex (\<lambda>q. isFile (lookup fs q)) (dirChain (iterationsDir mainCwd))"
    and sep: "\<not> isInside (iterationsDir worktreePath) (iterationsDir mainCwd)"
    and files: "\<forall>name. endsWith name (u16 ''.log'')
                 \<and> lookup fs (iterationsDir worktreePath @ [name]) \<noteq> None
                 \<longrightarrow> isFile (lookup fs (iterationsDir worktreePath @ [name]))"
    and f: "endsWith f (u16 ''.log'')" "lookup fs (iterationsDir worktreePath @ [f]) = Some (File c)"
  shows "lookup (preserveIterationLogs mainCwd worktreePath fs) (iterationsDir mainCwd @ [f])
           = (if lookup fs (iterationsDir mainCwd @ [f]) = None then Some (File c)
              else lookup fs (iterationsDir mainCwd @ [f]))"
proof -
  let ?W = "iterationsDir worktreePath" and ?M = "iterationsDir mainCwd"
  obtain fs1 where mk: "mkdirSyncRecursive fs ?M = Inr fs1" using mkdir_succeeds [OF M] by blast
  have ext: "extends fs fs1" using mk by (rule mkdir_extends)
  have W1: "lookup fs1 ?W = Some Dir" using ext W unfolding extends_def by auto
  have M1: "lookup fs1 ?M = Some Dir" using mk by (rule mkdir_creates)
  obtain logFiles where rd: "readdirSync fs1 ?W = Inr logFiles"
    using W1 by (simp add: readdirSync_def)
  have r: "preserveIterationLogs mainCwd worktreePath fs = copyLogFiles ?W ?M logFiles fs1"
    using W mk rd by (simp add: preserveIterationLogs_def existsSync_def)
  have same: "lookup fs1 (?W @ [g]) = lookup fs (?W @ [g])" for g
  proof (cases "lookup fs (?W @ [g])")
    case None
    show ?thesis
    proof (cases "lookup fs1 (?W @ [g])")
      case (Some n)
      then have "?W @ [g] \<in> set (dirChain ?M)" using mkdir_new [OF mk None] by simp
      then have "isInside (?W @ [g]) ?M" by (rule dirChain_inside)
      then have "isInside ?W ?M" by (auto simp: isInside_def dest: arg_cong [where f = "take (length ?W)"])
      then show ?thesis using sep by simp
    qed (simp add: None)
  next
    case (Some n)
    then show ?thesis using ext unfolding extends_def by auto
  qed
  have files1: "\<forall>g\<in>set logFiles. endsWith g (u16 ''.log'') \<longrightarrow> isFile (lookup fs1 (?W @ [g]))"
  proof (intro ballI impI)
    fix g assume "g \<in> set logFiles" and e: "endsWith g (u16 ''.log'')"
    then have "lookup fs1 (?W @ [g]) \<noteq> None" using readdir_iff [OF rd] by simp
    then have "lookup fs (?W @ [g]) \<noteq> None" using same by simp
    then have "isFile (lookup fs (?W @ [g]))" using files e by blast
    then show "isFile (lookup fs1 (?W @ [g]))" using same by simp
  qed
  have fin: "f \<in> set logFiles" using readdir_iff [OF rd, of f] same [of f] f(2) by simp
  have "lookup (copyLogFiles ?W ?M logFiles fs1) (?M @ [f])
          = (if lookup fs1 (?M @ [f]) = None then lookup fs1 (?W @ [f]) else lookup fs1 (?M @ [f]))"
    using M1 files1 fin f(1) by (rule copyLogFiles_complete)
  moreover have "lookup fs1 (?M @ [f]) = lookup fs (?M @ [f])"
  proof (cases "lookup fs (?M @ [f])")
    case None
    show ?thesis
    proof (cases "lookup fs1 (?M @ [f])")
      case (Some n)
      then have "?M @ [f] \<in> set (dirChain ?M)" using mkdir_new [OF mk None] by simp
      then obtain k where "?M @ [f] = take k ?M" unfolding dirChain_iff by blast
      then have "length (?M @ [f]) \<le> length ?M" by (metis length_take min.cobounded1)
      then show ?thesis by simp
    qed (simp add: None)
  next
    case (Some n)
    then show ?thesis using ext unfolding extends_def by auto
  qed
  ultimately show ?thesis using r same [of f] f(2) by simp
qed

lemmas fs_eval = exampleMain_def exampleWorktree_def exampleTree_def iterationsDir_def
  preserveIterationLogs_def existsSync_def lookup_def mkdirSyncRecursive_def dirChain_def
  readdirSync_def copyFileSync_def copyLogFiles_Cons endsWith_def u16_def Let_def

text \<open>
  C9, as stated: every file ending in \<open>.log\<close> is copied. The copying is inside one
  \<open>try\<close>: the first operation that throws ends it. Here the entry \<open>a.log\<close> is a
  directory, \<open>copyFileSync\<close> throws on it, and the log \<open>b.log\<close>, which has no
  destination yet, is not copied.
\<close>

theorem C9_directory_entry_counterexample:
  "endsWith (u16 ''b.log'') (u16 ''.log'')
   \<and> lookup logsWithDirectory (iterationsDir exampleWorktree @ [u16 ''b.log'']) = Some (File (u16 ''iteration 2''))
   \<and> lookup logsWithDirectory (iterationsDir exampleMain @ [u16 ''b.log'']) = None
   \<and> lookup (preserveIterationLogs exampleMain exampleWorktree logsWithDirectory)
        (iterationsDir exampleMain @ [u16 ''b.log'']) = None"
  by (simp add: logsWithDirectory_def fs_eval)

text \<open>
  C9, amended. Nothing that exists is changed, so no existing destination is overwritten.
  A regular file that is new afterwards is \<open>iterations/f\<close> of the main directory for an
  entry \<open>f\<close> ending in \<open>.log\<close> of the worktree's \<open>iterations\<close>, with the content of
  that entry: nothing else is copied. When no operation throws, that is, when the
  worktree's \<open>iterations\<close> is a directory whose entries ending in \<open>.log\<close> are regular
  files, none of the main \<open>iterations\<close> directory and its ancestors is a regular file,
  and the main \<open>iterations\<close> directory is not inside the worktree's, every such log is at
  its destination afterwards: copied if the destination did not exist, the destination
  as it was otherwise.
\<close>

theorem C9_preserve_iteration_logs:
  "(\<forall>p. lookup fs p \<noteq> None \<longrightarrow> lookup (preserveIterationLogs mainCwd worktreePath fs) p = lookup fs p)
   \<and> (\<forall>p c. lookup fs p = None \<and> lookup (preserveIterationLogs mainCwd worktreePath fs) p = Some (File c)
        \<longrightarrow> (\<exists>file. p = iterationsDir mainCwd @ [file] \<and> endsWith file (u16 ''.log'')
               \<and> lookup fs (iterationsDir worktreePath @ [file]) = Some (File c)))
   \<and> (lookup fs (iterationsDir worktreePath) = Some Dir
       \<and> \<not> list_ex (\<lambda>q. isFile (lookup fs q)) (dirChain (iterationsDir mainCwd))
       \<and> \<not> isInside (iterationsDir worktreePath) (iterationsDir mainCwd)
       \<and> (\<forall>name. endsWith name (u16 ''.log'') \<and> lookup fs (iterationsDir worktreePath @ [name]) \<noteq> None
             \<longrightarrow> isFile (lookup fs (iterationsDir worktreePath @ [name])))
       \<longrightarrow> (\<forall>file c. endsWith file (u16 ''.log'')
               \<and> lookup fs (iterationsDir worktreePath @ [file]) = Some (File c)
             \<longrightarrow> lookup (preserveIterationLogs mainCwd worktreePath fs) (iterationsDir mainCwd @ [file])
                  = (if lookup fs (iterationsDir mainCwd @ [file]) = None then Some (File c)
                     else lookup fs (iterationsDir mainCwd @ [file]))))"
proof (intro conjI)
  show "\<forall>p. lookup fs p \<noteq> None \<longrightarrow> lookup (preserveIterationLogs mainCwd worktreePath fs) p = lookup fs p"
    using preserve_extends [of fs mainCwd worktreePath] unfolding extends_def .
  show "\<forall>p c. lookup fs p = None \<and> lookup (preserveIterationLogs mainCwd worktreePath fs) p = Some (File c)
        \<longrightarrow> (\<exists>file. p = iterationsDir mainCwd @ [file] \<and> endsWith file (u16 ''.log'')
               \<and> lookup fs (iterationsDir worktreePath @ [file]) = Some (File c))"
    using preserve_only_logs by blast
  show "lookup fs (iterationsDir worktreePath) = Some Dir
       \<and> \<not> list_ex (\<lambda>q. isFile (lookup fs q)) (dirChain (iterationsDir mainCwd))
       \<and> \<not> isInside (iterationsDir worktreePath) (iterationsDir mainCwd)
       \<and> (\<forall>name. endsWith name (u16 ''.log'') \<and> lookup fs (iterationsDir worktreePath @ [name]) \<noteq> None
             \<longrightarrow> isFile (lookup fs (iterationsDir worktreePath @ [name])))
       \<longrightarrow> (\<forall>file c. endsWith file (u16 ''.log'')
               \<and> lookup fs (iterationsDir worktreePath @ [file]) = Some (File c)
             \<longrightarrow> lookup (preserveIterationLogs mainCwd worktreePath fs) (iterationsDir mainCwd @ [file])
                  = (if lookup fs (iterationsDir mainCwd @ [file]) = None then Some (File c)
                     else lookup fs (iterationsDir mainCwd @ [file])))"
    using preserve_complete [of fs worktreePath mainCwd] by blast
qed

theorem C9_preserve_iteration_logs_witness:
  "lookup logsOldAndNew (iterationsDir exampleWorktree) = Some Dir
   \<and> \<not> list_ex (\<lambda>q. isFile (lookup logsOldAndNew q)) (dirChain (iterationsDir exampleMain))
   \<and> \<not> isInside (iterationsDir exampleWorktree) (iterationsDir exampleMain)
   \<and> lookup (preserveIterationLogs exampleMain exampleWorktree logsOldAndNew)
        (iterationsDir exampleMain @ [u16 ''1.log'']) = Some (File (u16 ''old 1''))
   \<and> lookup (preserveIterationLogs exampleMain exampleWorktree logsOldAndNew)
        (iterationsDir exampleMain @ [u16 ''2.log'']) = Some (File (u16 ''new 2''))
   \<and> lookup (preserveIterationLogs exampleMain exampleWorktree logsOldAndNew)
        (iterationsDir exampleMain @ [u16 ''notes.txt'']) \<noteq> Some (File (u16 ''notes''))"
proof -
  let ?W = "iterationsDir exampleWorktree" and ?M = "iterationsDir exampleMain"
  let ?r = "preserveIterationLogs exampleMain exampleWorktree logsOldAndNew"
  note ev = logsOldAndNew_def exampleMain_def exampleWorktree_def exampleTree_def iterationsDir_def
    lookup_def dirChain_def endsWith_def u16_def isInside_def
  have h1: "lookup logsOldAndNew ?W = Some Dir" by (simp add: ev)
  have h2: "\<not> list_ex (\<lambda>q. isFile (lookup logsOldAndNew q)) (dirChain ?M)" by (simp add: ev)
  have h3: "\<not> isInside ?W ?M" by (simp add: ev)
  have h4: "\<forall>name. endsWith name (u16 ''.log'') \<and> lookup logsOldAndNew (?W @ [name]) \<noteq> None
              \<longrightarrow> isFile (lookup logsOldAndNew (?W @ [name]))"
    by (auto simp: ev split: if_splits)
  have old1: "lookup logsOldAndNew (?M @ [u16 ''1.log'']) = Some (File (u16 ''old 1''))" by (simp add: ev)
  have src1: "lookup logsOldAndNew (?W @ [u16 ''1.log'']) = Some (File (u16 ''new 1''))" by (simp add: ev)
  have none2: "lookup logsOldAndNew (?M @ [u16 ''2.log'']) = None" by (simp add: ev)
  have src2: "lookup logsOldAndNew (?W @ [u16 ''2.log'']) = Some (File (u16 ''new 2''))" by (simp add: ev)
  have noneN: "lookup logsOldAndNew (?M @ [u16 ''notes.txt'']) = None" by (simp add: ev)
  have e1: "endsWith (u16 ''1.log'') (u16 ''.log'')" and e2: "endsWith (u16 ''2.log'') (u16 ''.log'')"
    and eN: "\<not> endsWith (u16 ''notes.txt'') (u16 ''.log'')" by (simp_all add: endsWith_def u16_def)
  note inst = C9_preserve_iteration_logs [of logsOldAndNew exampleMain exampleWorktree]
  have r1: "lookup ?r (?M @ [u16 ''1.log'']) = Some (File (u16 ''old 1''))"
    using inst old1 by simp
  have all: "\<forall>file c. endsWith file (u16 ''.log'') \<and> lookup logsOldAndNew (?W @ [file]) = Some (File c)
             \<longrightarrow> lookup ?r (?M @ [file])
                  = (if lookup logsOldAndNew (?M @ [file]) = None then Some (File c)
                     else lookup logsOldAndNew (?M @ [file]))"
    using inst h1 h2 h3 h4 by blast
  have r2: "lookup ?r (?M @ [u16 ''2.log'']) = Some (File (u16 ''new 2''))"
    using all e2 src2 none2 by simp
  have rN: "lookup ?r (?M @ [u16 ''notes.txt'']) \<noteq> Some (File (u16 ''notes''))"
  proof
    assume "lookup ?r (?M @ [u16 ''notes.txt'']) = Some (File (u16 ''notes''))"
    then obtain nm where "?M @ [u16 ''notes.txt''] = ?M @ [nm]" "endsWith nm (u16 ''.log'')"
      using inst noneN by blast
    then show False using eN by simp
  qed
  show ?thesis using h1 h2 h3 r1 r2 rN by blast
qed

section \<open>The PRD of the JSON tracker\<close>

lemmas path_eval = pathResolve_def pathJoin_def normStep_def startsWith_def isPathInside_def
  pathBasename_def extname_def basenameWithout_def isSafeChar_def safeBaseOf_def externalPrdName_def
  resolveWorktreePrdPath_def pathString_def endsWith_def u16_def Let_def exampleDigest_def exampleMain_def exampleWorktree_def

subsection \<open>Splitting and joining\<close>

lemma splitOn_nonempty [simp]: "splitOn c xs \<noteq> []"
  by (induction xs) (auto split: list.splits)

lemma splitOn_free: "s \<in> set (splitOn c xs) \<Longrightarrow> c \<notin> set s"
proof (induction xs arbitrary: s)
  case Nil
  then show ?case by simp
next
  case (Cons x xs)
  then show ?case by (cases "splitOn c xs") (auto split: if_splits)
qed

lemma splitOn_single: "c \<notin> set s \<Longrightarrow> splitOn c s = [s]"
  by (induction s) auto

lemma splitOn_append: "c \<notin> set s \<Longrightarrow> splitOn c (s @ c # r) = s # splitOn c r"
  by (induction s) auto

lemma joinSlash_Cons: "joinSlash (s # ss) = s @ (if ss = [] then [] else 0x2F # joinSlash ss)"
  by (cases ss) auto

lemma splitOn_joinSlash:
  "ss \<noteq> [] \<Longrightarrow> \<forall>s\<in>set ss. 0x2F \<notin> set s \<Longrightarrow> splitOn 0x2F (joinSlash ss) = ss"
proof (induction ss rule: joinSlash.induct)
  case 1
  then show ?case by simp
next
  case (2 s)
  then show ?case by (simp add: splitOn_single)
next
  case (3 s t ss)
  then show ?case by (simp add: splitOn_append)
qed

subsection \<open>Normalised paths\<close>

lemma wfPath_butlast: "wfPath p \<Longrightarrow> wfPath (butlast p)"
  by (auto simp: wfPath_def list_all_iff dest: in_set_butlastD)

lemma normStep_wf: "wfPath p \<Longrightarrow> 0x2F \<notin> set seg \<Longrightarrow> wfPath (normStep p seg)"
  by (auto simp: normStep_def wfPath_butlast) (simp add: wfPath_def cleanSegment_def)

lemma foldl_normStep_wf:
  "wfPath p \<Longrightarrow> \<forall>seg\<in>set segs. 0x2F \<notin> set seg \<Longrightarrow> wfPath (foldl normStep p segs)"
  by (induction segs arbitrary: p) (auto simp: normStep_wf)

lemma pathResolve_wf: "wfPath base \<Longrightarrow> wfPath (pathResolve base s)"
  unfolding pathResolve_def
  by (rule foldl_normStep_wf) (auto simp: wfPath_def dest: splitOn_free)

lemma normStep_clean: "cleanSegment seg \<Longrightarrow> normStep p seg = p @ [seg]"
  by (simp add: normStep_def cleanSegment_def)

lemma foldl_normStep_clean: "list_all cleanSegment segs \<Longrightarrow> foldl normStep p segs = p @ segs"
  by (induction segs arbitrary: p) (auto simp: normStep_clean)

lemma pathJoin_clean: "list_all cleanSegment segs \<Longrightarrow> pathJoin base segs = base @ segs"
proof -
  assume c: "list_all cleanSegment segs"
  then have "concat (map (splitOn 0x2F) segs) = segs"
    by (induction segs) (auto simp: cleanSegment_def splitOn_single)
  then show ?thesis using c by (simp add: pathJoin_def foldl_normStep_clean)
qed

subsection \<open>Relative paths and containment\<close>

lemma isInside_Nil [simp]: "isInside [] p"
  by (simp add: isInside_def)

lemma isInside_Cons: "isInside (a # as) p \<longleftrightarrow> (\<exists>bs. p = a # bs \<and> isInside as bs)"
  by (cases p) (auto simp: isInside_def)

lemma isInside_append [simp]: "isInside p (p @ q)"
  by (simp add: isInside_def)

lemma isInside_refl [simp]: "isInside p p"
  by (simp add: isInside_def)

lemma isInside_iff: "isInside dir p \<longleftrightarrow> (\<exists>r. p = dir @ r)"
  by (metis append_take_drop_id isInside_append isInside_def)

lemma pathRelative_inside: "isInside base cand \<Longrightarrow> pathRelative base cand = drop (length base) cand"
  by (induction base cand rule: pathRelative.induct) (auto simp: isInside_Cons isInside_def)

lemma pathRelative_outside:
  "\<not> isInside base cand \<Longrightarrow> \<exists>rest. pathRelative base cand = u16 ''..'' # rest"
  by (induction base cand rule: pathRelative.induct) (auto simp: isInside_Cons)

lemma isPathInside_isInside: "isPathInside base cand \<Longrightarrow> isInside base cand"
proof (rule ccontr)
  assume i: "isPathInside base cand" and "\<not> isInside base cand"
  then obtain rest where "pathRelative base cand = u16 ''..'' # rest"
    using pathRelative_outside by blast
  then have "joinSlash (pathRelative base cand) = u16 ''..'' @ (if rest = [] then [] else 0x2F # joinSlash rest)"
    by (simp only: joinSlash_Cons)
  then show False using i by (auto simp: isPathInside_def startsWith_def u16_def Let_def)
qed

subsection \<open>The target of the PRD lies in the worktree\<close>

lemma collapseDashes_subset: "set (collapseDashes s) \<subseteq> set s"
  by (induction s rule: collapseDashes.induct) auto

lemma safeChar_not_slash: "isSafeChar c \<Longrightarrow> c \<noteq> 0x2F"
  by (auto simp: isSafeChar_def)

lemma safeBaseOf_free: "0x2F \<notin> set (safeBaseOf raw)"
proof -
  have "0x2F \<notin> set (map (\<lambda>c. if isSafeChar c then c else 0x2D) raw)"
    by (auto dest: safeChar_not_slash)
  then have "0x2F \<notin> set (take 64 (collapseDashes (map (\<lambda>c. if isSafeChar c then c else 0x2D) raw)))"
    using collapseDashes_subset in_set_takeD by fast
  then show ?thesis by (auto simp: safeBaseOf_def Let_def u16_def)
qed

lemma extname_subset: "set (extname b) \<subseteq> set b"
  by (auto simp: extname_def Let_def dest: in_set_dropD)

lemma hexDigit_not_slash: "isHexDigit c \<Longrightarrow> c \<noteq> 0x2F"
  by (auto simp: isHexDigit_def)

lemma pathBasename_free: "wfPath p \<Longrightarrow> 0x2F \<notin> set (pathBasename p)"
  by (auto simp: pathBasename_def wfPath_def list_all_iff cleanSegment_def)

lemma externalPrdName_clean:
  assumes "wfPath source" and "hexDigest sha1hex"
  shows "cleanSegment (externalPrdName sha1hex source)"
proof -
  let ?n = "externalPrdName sha1hex source"
  let ?b = "pathBasename source"
  have b: "0x2F \<notin> set ?b" using assms(1) by (rule pathBasename_free)
  have ext: "0x2F \<notin> set (if extname ?b = [] then u16 ''.json'' else extname ?b)"
    using b extname_subset [of ?b] by (auto simp: u16_def)
  have "list_all isHexDigit (sha1hex (pathString source))" using assms(2) by (simp add: hexDigest_def)
  then have h: "0x2F \<notin> set (take 8 (sha1hex (pathString source)))"
    by (auto simp: list_all_iff dest!: in_set_takeD hexDigit_not_slash)
  have free: "0x2F \<notin> set ?n"
    using safeBaseOf_free ext h by (auto simp: externalPrdName_def Let_def u16_def)
  have dash: "0x2D \<in> set ?n" by (simp add: externalPrdName_def Let_def u16_def)
  then have "?n \<noteq> [] \<and> ?n \<noteq> u16 ''.'' \<and> ?n \<noteq> u16 ''..''"
    by (auto simp: u16_def)
  then show ?thesis using free by (simp add: cleanSegment_def)
qed

lemma literal_segments_clean:
  "cleanSegment (u16 ''.ralph-tui'')" "cleanSegment (u16 ''external-prd'')"
  by (simp_all add: cleanSegment_def u16_def)

lemma external_target:
  assumes "wfPath source" and "hexDigest sha1hex"
  shows "pathJoin worktreePath [u16 ''.ralph-tui'', u16 ''external-prd'', externalPrdName sha1hex source]
           = worktreePath @ [u16 ''.ralph-tui'', u16 ''external-prd'', externalPrdName sha1hex source]"
  by (rule pathJoin_clean) (simp add: literal_segments_clean externalPrdName_clean [OF assms])

lemma wfPath_drop: "wfPath p \<Longrightarrow> wfPath (drop n p)"
  by (auto simp: wfPath_def list_all_iff dest: in_set_dropD)

lemma joinSlash_nonempty: "ss \<noteq> [] \<Longrightarrow> hd ss \<noteq> [] \<Longrightarrow> joinSlash ss \<noteq> []"
  by (cases ss) (auto simp: joinSlash_Cons)

lemma relative_target:
  assumes src: "wfPath source" and ins: "isInside cwd source"
  shows "isInside worktreePath
           (pathJoin worktreePath
              [if length (joinSlash (pathRelative cwd source)) > 0
               then joinSlash (pathRelative cwd source) else pathBasename source])"
proof -
  let ?r = "drop (length cwd) source"
  have rel: "pathRelative cwd source = ?r" using ins by (rule pathRelative_inside)
  have wr: "wfPath ?r" using src by (rule wfPath_drop)
  show ?thesis
  proof (cases "?r = []")
    case True
    show ?thesis
    proof (cases "source = []")
      case True
      then show ?thesis using rel by (simp add: pathJoin_def pathBasename_def normStep_def)
    next
      case False
      then have "cleanSegment (last source)" using src by (simp add: wfPath_def list_all_iff)
      then have "pathJoin worktreePath [last source] = worktreePath @ [last source]"
        by (intro pathJoin_clean) simp
      then show ?thesis using rel True False by (simp add: pathBasename_def)
    qed
  next
    case False
    have free: "\<forall>s\<in>set ?r. 0x2F \<notin> set s" using wr by (simp add: wfPath_def list_all_iff cleanSegment_def)
    have "hd ?r \<noteq> []" using wr False by (cases ?r) (auto simp: wfPath_def cleanSegment_def)
    then have ne: "joinSlash ?r \<noteq> []" using False by (intro joinSlash_nonempty)
    have "splitOn 0x2F (joinSlash ?r) = ?r" using False free by (rule splitOn_joinSlash)
    then have "pathJoin worktreePath [joinSlash ?r] = foldl normStep worktreePath ?r"
      by (simp add: pathJoin_def)
    also have "\<dots> = worktreePath @ ?r" using wr by (simp add: foldl_normStep_clean wfPath_def)
    finally show ?thesis using rel ne by simp
  qed
qed

lemma resolve_target_inside:
  assumes "wfPath cwd" and "hexDigest sha1hex"
  shows "isInside worktreePath (targetPrd (resolveWorktreePrdPath sha1hex cwd worktreePath prdFile))"
proof -
  let ?src = "pathResolve cwd prdFile"
  have src: "wfPath ?src" using assms(1) by (rule pathResolve_wf)
  show ?thesis
  proof (cases "isPathInside worktreePath ?src")
    case True
    then show ?thesis using isPathInside_isInside [OF True]
      by (simp add: resolveWorktreePrdPath_def Let_def)
  next
    case False
    note nw = this
    show ?thesis
    proof (cases "isPathInside cwd ?src")
      case True
      then have "isInside cwd ?src" by (rule isPathInside_isInside)
      from relative_target [OF src this, of worktreePath] show ?thesis using nw True
        by (auto simp: resolveWorktreePrdPath_def Let_def split: if_splits)
    next
      case False
      then show ?thesis using nw external_target [OF src assms(2)]
        by (simp add: resolveWorktreePrdPath_def Let_def)
    qed
  qed
qed

lemma resolve_external:
  assumes "wfPath cwd" and "hexDigest sha1hex"
    and "\<not> isInside cwd (pathResolve cwd prdFile)" and "\<not> isInside worktreePath (pathResolve cwd prdFile)"
  shows "resolveWorktreePrdPath sha1hex cwd worktreePath prdFile
           = \<lparr>sourcePrd = pathResolve cwd prdFile,
              targetPrd = worktreePath @ [u16 ''.ralph-tui'', u16 ''external-prd'',
                                          externalPrdName sha1hex (pathResolve cwd prdFile)],
              isExternal = True\<rparr>"
proof -
  have src: "wfPath (pathResolve cwd prdFile)" using assms(1) by (rule pathResolve_wf)
  have "\<not> isPathInside cwd (pathResolve cwd prdFile)" "\<not> isPathInside worktreePath (pathResolve cwd prdFile)"
    using assms(3,4) isPathInside_isInside by blast+
  then show ?thesis using external_target [OF src assms(2)]
    by (simp add: resolveWorktreePrdPath_def Let_def)
qed

lemma resolve_source [simp]:
  "sourcePrd (resolveWorktreePrdPath sha1hex cwd worktreePath prdFile) = pathResolve cwd prdFile"
  by (simp add: resolveWorktreePrdPath_def Let_def)

subsection \<open>What the copy writes\<close>

lemma take_butlast_prefix:
  assumes "isInside wt tgt" and "k < length wt"
  shows "take k (butlast tgt) = take k wt"
proof -
  obtain r where t: "tgt = wt @ r" using assms(1) by (auto simp: isInside_iff)
  show ?thesis
  proof (cases "r = []")
    case True
    then show ?thesis using t assms(2) by (simp add: take_butlast)
  next
    case False
    then show ?thesis using t assms(2) by (simp add: butlast_append)
  qed
qed

lemma mkdir_frame:
  assumes ins: "isInside wt tgt"
    and anc: "\<forall>q\<in>set (dirChain wt). lookup fs q \<noteq> None"
    and out: "\<not> isInside wt q"
    and mk: "mkdirSyncRecursive fs (butlast tgt) = Inr fs1"
  shows "lookup fs1 q = lookup fs q"
proof (cases "lookup fs q")
  case (Some n)
  then show ?thesis using mkdir_extends [OF mk] unfolding extends_def by auto
next
  case None
  show ?thesis
  proof (cases "lookup fs1 q")
    case None
    then show ?thesis using \<open>lookup fs q = None\<close> by simp
  next
    case (Some n)
    then have "q \<in> set (dirChain (butlast tgt))" using mkdir_new [OF mk \<open>lookup fs q = None\<close>] by simp
    then obtain k where k: "0 < k" "k \<le> length (butlast tgt)" "q = take k (butlast tgt)"
      unfolding dirChain_iff by blast
    have "k < length wt"
    proof (rule ccontr)
      assume "\<not> k < length wt"
      then have le: "length wt \<le> k" by simp
      obtain r where t: "tgt = wt @ r" using ins by (auto simp: isInside_iff)
      have "r \<noteq> []" using le k(1,2) t by auto
      then have "butlast tgt = wt @ butlast r" using t by (simp add: butlast_append)
      then have "take (length wt) q = wt" using k(3) le by (simp add: min_def)
      then show False using out by (simp add: isInside_def)
    qed
    then have "q = take k wt" using k(3) take_butlast_prefix [OF ins] by simp
    then have "q \<in> set (dirChain wt)" unfolding dirChain_iff using k(1) \<open>k < length wt\<close> by auto
    then show ?thesis using anc \<open>lookup fs q = None\<close> by blast
  qed
qed

lemma copyFile_frame: "copyFileSync fs src tgt = Inr fs' \<Longrightarrow> q \<noteq> tgt \<Longrightarrow> lookup fs' q = lookup fs q"
  by (auto simp: copyFileSync_def lookup_Cons split: option.splits node.splits if_splits)

lemma copyTrackerData_frame:
  assumes "wfPath cwd" and "hexDigest sha1hex"
    and anc: "\<forall>q\<in>set (dirChain worktreePath). lookup fs q \<noteq> None"
    and out: "\<not> isInside worktreePath q"
  shows "lookup (snd (copyTrackerData_json sha1hex cwd worktreePath prdPath fs)) q = lookup fs q"
proof -
  let ?r = "resolveWorktreePrdPath sha1hex cwd worktreePath (prdFileOf prdPath)"
  have ins: "isInside worktreePath (targetPrd ?r)" using assms(1,2) by (rule resolve_target_inside)
  then have ne: "q \<noteq> targetPrd ?r" using out by auto
  show ?thesis
  proof (cases "existsSync fs (sourcePrd ?r) \<and> sourcePrd ?r \<noteq> targetPrd ?r")
    case False
    then show ?thesis by (auto simp: copyTrackerData_json_def Let_def)
  next
    case True
    show ?thesis
    proof (cases "mkdirSyncRecursive fs (butlast (targetPrd ?r))")
      case (Inl e)
      then show ?thesis using True by (simp add: copyTrackerData_json_def Let_def)
    next
      case (Inr fs1)
      have 1: "lookup fs1 q = lookup fs q" using ins anc out Inr by (rule mkdir_frame)
      show ?thesis
      proof (cases "copyFileSync fs1 (sourcePrd ?r) (targetPrd ?r)")
        case (Inl e)
        then show ?thesis using True Inr 1 by (simp add: copyTrackerData_json_def Let_def)
      next
        case (Inr fs2)
        then have "lookup fs2 q = lookup fs1 q" using ne by (rule copyFile_frame)
        then show ?thesis using True \<open>mkdirSyncRecursive fs (butlast (targetPrd ?r)) = Inr fs1\<close> Inr 1
          by (simp add: copyTrackerData_json_def Let_def)
      qed
    qed
  qed
qed

lemma copyTrackerData_copies:
  assumes src: "lookup fs (sourcePrd r) = Some (File c)"
    and r: "r = resolveWorktreePrdPath sha1hex cwd worktreePath (prdFileOf prdPath)"
    and ne: "sourcePrd r \<noteq> targetPrd r"
    and nf: "\<not> list_ex (\<lambda>q. isFile (lookup fs q)) (dirChain (butlast (targetPrd r)))"
    and nd: "lookup fs (targetPrd r) \<noteq> Some Dir"
  shows "\<exists>fs'. copyTrackerData_json sha1hex cwd worktreePath prdPath fs
                 = (Inr \<lparr>jsonPrdPath = targetPrd r, jsonPrdIsExternal = isExternal r\<rparr>, fs')
               \<and> lookup fs' (targetPrd r) = Some (File c)"
proof -
  obtain fs1 where mk: "mkdirSyncRecursive fs (butlast (targetPrd r)) = Inr fs1"
    using mkdir_succeeds [OF nf] by blast
  have ext: "extends fs fs1" using mk by (rule mkdir_extends)
  have s1: "lookup fs1 (sourcePrd r) = Some (File c)" using ext src unfolding extends_def by auto
  have p1: "lookup fs1 (butlast (targetPrd r)) = Some Dir" using mk by (rule mkdir_creates)
  have t1: "lookup fs1 (targetPrd r) \<noteq> Some Dir"
  proof (cases "lookup fs (targetPrd r)")
    case None
    show ?thesis
    proof
      assume d: "lookup fs1 (targetPrd r) = Some Dir"
      then have "targetPrd r \<in> set (dirChain (butlast (targetPrd r)))" using mkdir_new [OF mk None d] by simp
      then obtain k where "targetPrd r = take k (butlast (targetPrd r))" unfolding dirChain_iff by blast
      then have "length (targetPrd r) \<le> length (butlast (targetPrd r))" by (metis length_take min.cobounded1)
      moreover have "targetPrd r \<noteq> []" using None by auto
      then have "length (butlast (targetPrd r)) < length (targetPrd r)"
        by (cases "targetPrd r" rule: rev_cases) simp_all
      ultimately show False by linarith
    qed
  next
    case (Some n)
    then show ?thesis using ext nd unfolding extends_def by auto
  qed
  have cp: "copyFileSync fs1 (sourcePrd r) (targetPrd r) = Inr ((targetPrd r, File c) # fs1)"
    using s1 p1 t1 by (simp add: copyFileSync_def)
  have tn: "targetPrd r \<noteq> []" using nd by auto
  have "copyTrackerData_json sha1hex cwd worktreePath prdPath fs
          = (Inr \<lparr>jsonPrdPath = targetPrd r, jsonPrdIsExternal = isExternal r\<rparr>, (targetPrd r, File c) # fs1)"
    using src ne mk cp r by (simp add: copyTrackerData_json_def Let_def existsSync_def)
  moreover have "lookup ((targetPrd r, File c) # fs1) (targetPrd r) = Some (File c)"
    using tn by (simp add: lookup_Cons)
  ultimately show ?thesis by blast
qed

lemmas prd_eval = path_eval prdFileOf_def copyTrackerData_json_def copyTrackerData_json_legacy_def
  exampleTree_def iterationsDir_def existsSync_def lookup_def mkdirSyncRecursive_def dirChain_def
  copyFileSync_def isInside_def

subsection \<open>The version that resolves the target\<close>

text \<open>
  The first test of \<open>resolveWorktreePrdPath\<close> keeps a PRD that \<open>isPathInside\<close> finds in
  the worktree where it is (the resume path): nothing is copied and the reported path is
  the source itself.
\<close>

lemma resume_path_keeps_prd:
  "\<not> isInside exampleMain (exampleWorktree @ [u16 ''prd.json''])
   \<and> copyTrackerData_json exampleDigest exampleMain exampleWorktree
        (Some (u16 ''/repo/.ralph-worktrees/proj/s/prd.json'')) prdInsideWorktree
      = (Inr \<lparr>jsonPrdPath = exampleWorktree @ [u16 ''prd.json''], jsonPrdIsExternal = False\<rparr>,
         prdInsideWorktree)"
  by (simp add: prdInsideWorktree_def prd_eval)

text \<open>
  For a normalised cwd and a digest in hexadecimal. A PRD outside the cwd and outside the
  worktree gets the target
  \<open><worktree>/.ralph-tui/external-prd/<safe-base>-<sha1[:8]><ext>\<close>; a PRD for which
  \<open>isPathInside(worktreePath, sourcePrd)\<close> holds is its own target and the file system is
  left as it is. When the worktree directory and its ancestors exist, the copy changes no
  path outside the worktree: so it never writes through the source path of an external
  PRD. And a PRD that is a regular file is at its target afterwards, when the target
  differs from it, is not a directory, and no ancestor of the target is a regular file.
\<close>

lemma rebased_copy_stays_inside_worktree:
  assumes "wfPath cwd" and "hexDigest sha1hex"
  shows
    "(let source = pathResolve cwd (prdFileOf prdPath);
          r = resolveWorktreePrdPath sha1hex cwd worktreePath (prdFileOf prdPath);
          copy = copyTrackerData_json sha1hex cwd worktreePath prdPath fs
      in (\<not> isInside cwd source \<and> \<not> isInside worktreePath source
            \<longrightarrow> r = \<lparr>sourcePrd = source,
                     targetPrd = worktreePath @ [u16 ''.ralph-tui'', u16 ''external-prd'',
                                                 externalPrdName sha1hex source],
                     isExternal = True\<rparr>)
         \<and> (isPathInside worktreePath source
            \<longrightarrow> copy = (Inr \<lparr>jsonPrdPath = source, jsonPrdIsExternal = False\<rparr>, fs))
         \<and> ((\<forall>q\<in>set (dirChain worktreePath). lookup fs q \<noteq> None)
            \<longrightarrow> (\<forall>q. \<not> isInside worktreePath q \<longrightarrow> lookup (snd copy) q = lookup fs q))
         \<and> (\<forall>c. lookup fs source = Some (File c) \<and> source \<noteq> targetPrd r
                 \<and> \<not> list_ex (\<lambda>q. isFile (lookup fs q)) (dirChain (butlast (targetPrd r)))
                 \<and> lookup fs (targetPrd r) \<noteq> Some Dir
            \<longrightarrow> fst copy = Inr \<lparr>jsonPrdPath = targetPrd r, jsonPrdIsExternal = isExternal r\<rparr>
                \<and> lookup (snd copy) (targetPrd r) = Some (File c)))"
proof -
  let ?src = "pathResolve cwd (prdFileOf prdPath)"
  let ?r = "resolveWorktreePrdPath sha1hex cwd worktreePath (prdFileOf prdPath)"
  let ?copy = "copyTrackerData_json sha1hex cwd worktreePath prdPath fs"
  have 1: "\<not> isInside cwd ?src \<and> \<not> isInside worktreePath ?src
            \<longrightarrow> ?r = \<lparr>sourcePrd = ?src,
                     targetPrd = worktreePath @ [u16 ''.ralph-tui'', u16 ''external-prd'',
                                                 externalPrdName sha1hex ?src],
                     isExternal = True\<rparr>"
    using resolve_external [OF assms] by blast
  have 2: "isPathInside worktreePath ?src
            \<longrightarrow> ?copy = (Inr \<lparr>jsonPrdPath = ?src, jsonPrdIsExternal = False\<rparr>, fs)"
    by (simp add: copyTrackerData_json_def resolveWorktreePrdPath_def Let_def)
  have 3: "(\<forall>q\<in>set (dirChain worktreePath). lookup fs q \<noteq> None)
            \<longrightarrow> (\<forall>q. \<not> isInside worktreePath q \<longrightarrow> lookup (snd ?copy) q = lookup fs q)"
    using copyTrackerData_frame [OF assms] by blast
  have 4: "\<forall>c. lookup fs ?src = Some (File c) \<and> ?src \<noteq> targetPrd ?r
                 \<and> \<not> list_ex (\<lambda>q. isFile (lookup fs q)) (dirChain (butlast (targetPrd ?r)))
                 \<and> lookup fs (targetPrd ?r) \<noteq> Some Dir
            \<longrightarrow> fst ?copy = Inr \<lparr>jsonPrdPath = targetPrd ?r, jsonPrdIsExternal = isExternal ?r\<rparr>
                \<and> lookup (snd ?copy) (targetPrd ?r) = Some (File c)"
  proof (intro allI impI)
    fix c
    assume h: "lookup fs ?src = Some (File c) \<and> ?src \<noteq> targetPrd ?r
                 \<and> \<not> list_ex (\<lambda>q. isFile (lookup fs q)) (dirChain (butlast (targetPrd ?r)))
                 \<and> lookup fs (targetPrd ?r) \<noteq> Some Dir"
    have "\<exists>fs'. ?copy = (Inr \<lparr>jsonPrdPath = targetPrd ?r, jsonPrdIsExternal = isExternal ?r\<rparr>, fs')
               \<and> lookup fs' (targetPrd ?r) = Some (File c)"
      using h by (intro copyTrackerData_copies) simp_all
    then show "fst ?copy = Inr \<lparr>jsonPrdPath = targetPrd ?r, jsonPrdIsExternal = isExternal ?r\<rparr>
                \<and> lookup (snd ?copy) (targetPrd ?r) = Some (File c)"
      by auto
  qed
  show ?thesis unfolding Let_def using 1 2 3 4 by blast
qed

lemma hexDigest_example: "hexDigest exampleDigest"
  by (simp add: hexDigest_def exampleDigest_def isHexDigit_def u16_def)

lemma wfPath_example: "wfPath exampleMain"
  by (simp add: wfPath_def exampleMain_def cleanSegment_def u16_def)

text \<open>
  The PRD \<open>../ext/my prd.json\<close> of the project \<open>/repo/proj\<close>: the copy is at the
  \<open>external-prd\<close> path of the worktree, and the source is as it was.
\<close>

lemma rebased_copy_example:
  "wfPath exampleMain \<and> hexDigest exampleDigest
   \<and> pathResolve exampleMain (u16 ''../ext/my prd.json'') = [u16 ''repo'', u16 ''ext'', u16 ''my prd.json'']
   \<and> targetPrd (resolveWorktreePrdPath exampleDigest exampleMain exampleWorktree (u16 ''../ext/my prd.json''))
       = exampleWorktree @ [u16 ''.ralph-tui'', u16 ''external-prd'', u16 ''my-prd-3f786850.json'']
   \<and> lookup (snd (copyTrackerData_json exampleDigest exampleMain exampleWorktree
                    (Some (u16 ''../ext/my prd.json'')) prdOutside))
        (exampleWorktree @ [u16 ''.ralph-tui'', u16 ''external-prd'', u16 ''my-prd-3f786850.json''])
       = Some (File (u16 ''{}''))
   \<and> lookup (snd (copyTrackerData_json exampleDigest exampleMain exampleWorktree
                    (Some (u16 ''../ext/my prd.json'')) prdOutside))
        [u16 ''repo'', u16 ''ext'', u16 ''my prd.json'']
       = Some (File (u16 ''{}''))"
proof -
  let ?p = "Some (u16 ''../ext/my prd.json'')"
  let ?src = "[u16 ''repo'', u16 ''ext'', u16 ''my prd.json'']"
  let ?tgt = "exampleWorktree @ [u16 ''.ralph-tui'', u16 ''external-prd'', u16 ''my-prd-3f786850.json'']"
  let ?copy = "copyTrackerData_json exampleDigest exampleMain exampleWorktree ?p prdOutside"
  note inst = rebased_copy_stays_inside_worktree [OF wfPath_example hexDigest_example,
      of ?p exampleWorktree prdOutside, unfolded Let_def]
  have f: "prdFileOf ?p = u16 ''../ext/my prd.json''" by (simp add: prdFileOf_def u16_def)
  have src: "pathResolve exampleMain (u16 ''../ext/my prd.json'') = ?src" by (simp add: path_eval)
  have out: "\<not> isInside exampleMain ?src" "\<not> isInside exampleWorktree ?src"
    by (simp_all add: isInside_def exampleMain_def exampleWorktree_def u16_def)
  have nm: "externalPrdName exampleDigest ?src = u16 ''my-prd-3f786850.json''" by (simp add: path_eval)
  have r: "resolveWorktreePrdPath exampleDigest exampleMain exampleWorktree (u16 ''../ext/my prd.json'')
             = \<lparr>sourcePrd = ?src, targetPrd = ?tgt, isExternal = True\<rparr>"
    using inst out by (simp add: f src nm)
  have anc: "\<forall>q\<in>set (dirChain exampleWorktree). lookup prdOutside q \<noteq> None"
    by (simp add: prdOutside_def prd_eval)
  have s0: "lookup prdOutside ?src = Some (File (u16 ''{}''))" by (simp add: prdOutside_def prd_eval)
  have ne: "?src \<noteq> ?tgt" by (simp add: exampleWorktree_def u16_def)
  have nf: "\<not> list_ex (\<lambda>q. isFile (lookup prdOutside q)) (dirChain (butlast ?tgt))"
    by (simp add: prdOutside_def prd_eval)
  have nd: "lookup prdOutside ?tgt \<noteq> Some Dir" by (simp add: prdOutside_def prd_eval)
  have t: "lookup (snd ?copy) ?tgt = Some (File (u16 ''{}''))"
    using inst s0 ne nf nd by (simp add: f src r)
  have s: "lookup (snd ?copy) ?src = Some (File (u16 ''{}''))"
    using inst anc out(2) s0 by (simp add: f src r)
  show ?thesis using wfPath_example hexDigest_example src r t s by simp
qed

subsection \<open>The version of \<open>session-worktree.ts\<close>\<close>

text \<open>
  C4: a PRD outside the original cwd is copied to
  \<open><worktree>/.ralph-tui/external-prd/<safe-base>-<sha1[:8]><ext>\<close>, and nothing is
  written outside the worktree. The \<open>copyTrackerData\<close> of \<open>session-worktree.ts\<close> does
  otherwise. The project is \<open>/repo/proj\<close>, the worktree
  \<open>/repo/.ralph-worktrees/proj/s\<close>, the PRD \<open>../ext/my prd.json\<close>, a regular file outside
  both. The path of the PRD relative to the cwd starts with \<open>..\<close>, and joined to the
  worktree path it leaves the worktree: the function creates the directory
  \<open>/repo/.ralph-worktrees/proj/ext\<close> and copies the PRD into it, and nothing is at the
  \<open>external-prd\<close> path.
\<close>

theorem C4_legacy_copy_leaves_worktree:
  "pathResolve exampleMain (u16 ''../ext/my prd.json'') = [u16 ''repo'', u16 ''ext'', u16 ''my prd.json'']
   \<and> \<not> isInside exampleMain [u16 ''repo'', u16 ''ext'', u16 ''my prd.json'']
   \<and> \<not> isInside exampleWorktree [u16 ''repo'', u16 ''ext'', u16 ''my prd.json'']
   \<and> lookup prdOutside [u16 ''repo'', u16 ''ext'', u16 ''my prd.json''] = Some (File (u16 ''{}''))
   \<and> \<not> isInside exampleWorktree
         [u16 ''repo'', u16 ''.ralph-worktrees'', u16 ''proj'', u16 ''ext'', u16 ''my prd.json'']
   \<and> copyTrackerData_json_legacy exampleMain exampleWorktree (Some (u16 ''../ext/my prd.json'')) prdOutside
       = (Inr (),
          ([u16 ''repo'', u16 ''.ralph-worktrees'', u16 ''proj'', u16 ''ext'', u16 ''my prd.json''],
             File (u16 ''{}''))
          # ([u16 ''repo'', u16 ''.ralph-worktrees'', u16 ''proj'', u16 ''ext''], Dir)
          # prdOutside)
   \<and> lookup (snd (copyTrackerData_json_legacy exampleMain exampleWorktree
                    (Some (u16 ''../ext/my prd.json'')) prdOutside))
        (exampleWorktree @ [u16 ''.ralph-tui'', u16 ''external-prd'', u16 ''my-prd-3f786850.json''])
       = None"
  by (simp add: prdOutside_def prd_eval)

section \<open>Git and the session worktree\<close>

subsection \<open>git\<close>

lemma git_fails [simp]: "gitFails (snd (git w cmd)) = gitFails w"
  by (cases cmd) (simp_all add: git_def Let_def)

lemma git_headRef [simp]: "headRef (snd (git w cmd)) = headRef w"
  by (cases cmd) (simp_all add: git_def Let_def)

lemma git_log [simp]: "gitLog (snd (git w cmd)) = gitLog w @ [cmd]"
  by (cases cmd) (simp_all add: git_def Let_def)

lemma git_result: "fst (git w cmd) = (if gitFails w cmd then Inl (GitError cmd) else Inr (gitOutput w cmd))"
  by (simp add: git_def Let_def)

lemma git_failed_state:
  "gitFails w cmd \<Longrightarrow> disk (snd (git w cmd)) = disk w \<and> branches (snd (git w cmd)) = branches w"
  by (simp add: git_def Let_def)

lemma git_query_state:
  "\<not> touchesRepository cmd \<Longrightarrow> disk (snd (git w cmd)) = disk w \<and> branches (snd (git w cmd)) = branches w"
  by (cases cmd) (simp_all add: git_def Let_def)

subsection \<open>Removing the session worktree\<close>

lemma lookup_filter_None: "lookup fs p = None \<Longrightarrow> lookup (filter P fs) p = None"
  by (auto simp: lookup_def map_of_eq_None_iff split: if_splits)

lemma lookup_rmSync_self: "p \<noteq> [] \<Longrightarrow> lookup (rmSyncRecursiveForce fs p) p = None"
  by (auto simp: rmSyncRecursiveForce_def lookup_def map_of_eq_None_iff)

lemma rmdirSync_None: "lookup fs p = None \<Longrightarrow> rmdirSync fs d = Inr fs' \<Longrightarrow> lookup fs' p = None"
  by (auto simp: rmdirSync_def lookup_filter_None split: sum.splits if_splits)

lemma removeEmptyBaseDirs_None: "lookup fs p = None \<Longrightarrow> lookup (removeEmptyBaseDirs cwd fs) p = None"
  by (auto simp: removeEmptyBaseDirs_def Let_def split: sum.splits dest: rmdirSync_None)

lemma remove_log:
  "gitLog (removeSessionWorktree w cwd wt bn) = gitLog w @ cleanupCommands w wt bn"
  by (simp add: removeSessionWorktree_def cleanupCommands_def git_def Let_def)

lemma remove_gitFails [simp]: "gitFails (removeSessionWorktree w cwd wt bn) = gitFails w"
  by (simp add: removeSessionWorktree_def git_def Let_def)

lemma remove_directory_gone:
  assumes "wt \<noteq> []"
  shows "\<not> existsSync (disk (removeSessionWorktree w cwd wt bn)) wt"
proof -
  let ?w2 = "case git w (WorktreeRemoveForce wt) of
                  (Inr _, w1) \<Rightarrow> w1
                | (Inl _, w1) \<Rightarrow>
                    snd (git (if existsSync (disk w1) wt
                              then w1\<lparr>disk := rmSyncRecursiveForce (disk w1) wt\<rparr> else w1)
                           WorktreePrune)"
  have "lookup (disk ?w2) wt = None"
    using assms by (auto simp: git_def Let_def existsSync_def lookup_rmSync_self)
  then have "lookup (disk (snd (git ?w2 (BranchDeleteForce bn)))) wt = None"
    by (simp add: git_def Let_def)
  then have "lookup (removeEmptyBaseDirs cwd (disk (snd (git ?w2 (BranchDeleteForce bn))))) wt = None"
    by (rule removeEmptyBaseDirs_None)
  then show ?thesis by (simp add: removeSessionWorktree_def Let_def existsSync_def)
qed

lemma remove_branch_gone:
  "\<not> gitFails w (BranchDeleteForce bn) \<Longrightarrow> bn \<notin> set (branches (removeSessionWorktree w cwd wt bn))"
  by (simp add: removeSessionWorktree_def git_def Let_def)

lemma remove_branch_kept:
  "gitFails w (BranchDeleteForce bn) \<Longrightarrow> branches (removeSessionWorktree w cwd wt bn) = branches w"
  by (simp add: removeSessionWorktree_def git_def Let_def)

subsection \<open>Merging the session worktree\<close>

lemma merge_success: "success (fst (mergeSessionWorktree w cwd wt bn)) \<longleftrightarrow> mergeSucceeds w bn"
  by (auto simp: mergeSessionWorktree_def mergeSucceeds_def git_def Let_def)

lemma merge_log:
  "gitLog (snd (mergeSessionWorktree w cwd wt bn)) = gitLog w @ mergeCommands w wt bn"
  by (simp add: mergeSessionWorktree_def mergeCommands_def git_def Let_def remove_log cleanupCommands_def)

lemma merge_failure_frame:
  "\<not> mergeSucceeds w bn \<Longrightarrow>
   disk (snd (mergeSessionWorktree w cwd wt bn)) = disk w
   \<and> branches (snd (mergeSessionWorktree w cwd wt bn)) = branches w"
  by (auto simp: mergeSessionWorktree_def mergeSucceeds_def git_def Let_def)

lemma merge_success_state:
  assumes "mergeSucceeds w bn"
  shows "\<exists>w0. snd (mergeSessionWorktree w cwd wt bn) = removeSessionWorktree w0 cwd wt bn
              \<and> gitFails w0 = gitFails w \<and> branches w0 = branches w \<and> disk w0 = disk w"
proof (cases "gitFails w (MergeFfOnly bn)")
  case False
  let ?w0 = "w\<lparr>gitLog := gitLog w @ [RevParseAbbrevRefHead, MergeFfOnly bn]\<rparr>"
  have "snd (mergeSessionWorktree w cwd wt bn) = removeSessionWorktree ?w0 cwd wt bn"
    using assms False by (simp add: mergeSessionWorktree_def mergeSucceeds_def git_def Let_def)
  moreover have "gitFails ?w0 = gitFails w \<and> branches ?w0 = branches w \<and> disk ?w0 = disk w" by simp
  ultimately show ?thesis by blast
next
  case True
  let ?w0 = "w\<lparr>gitLog := gitLog w @ [RevParseAbbrevRefHead, MergeFfOnly bn, MergeNoEdit bn]\<rparr>"
  have "snd (mergeSessionWorktree w cwd wt bn) = removeSessionWorktree ?w0 cwd wt bn"
    using assms True by (simp add: mergeSessionWorktree_def mergeSucceeds_def git_def Let_def)
  moreover have "gitFails ?w0 = gitFails w \<and> branches ?w0 = branches w \<and> disk ?w0 = disk w" by simp
  ultimately show ?thesis by blast
qed

text \<open>
  C5, as stated: if a merge succeeds, the session branch is deleted. The cleanup after a
  successful merge is best effort: a failing \<open>git branch -D\<close> is caught and ignored. Here
  the fast-forward merge succeeds, and \<open>git worktree remove --force\<close> and
  \<open>git branch -D\<close> fail (a locked worktree): the function returns success, and the
  session branch still exists.
\<close>

theorem C5_branch_kept_counterexample:
  "success (fst (mergeSessionWorktree (exampleWorld lockedWorktree) exampleMain exampleWorktree exampleBranch))
   \<and> exampleBranch \<in> set (branches
        (snd (mergeSessionWorktree (exampleWorld lockedWorktree) exampleMain exampleWorktree exampleBranch)))"
  by (simp add: mergeSessionWorktree_def removeSessionWorktree_def git_def Let_def exampleWorld_def
        exampleBranch_def trim_def jschar_defs)

text \<open>
  C5, amended. The commands run are, in this order: \<open>rev-parse --abbrev-ref HEAD\<close>; then,
  unless that fails or names the session branch itself, \<open>merge --ff-only\<close>; if that
  fails, \<open>merge --no-edit\<close>; if that fails, \<open>merge --abort\<close>; and after a merge that
  succeeded, the cleanup: \<open>worktree remove --force\<close>, \<open>worktree prune\<close> if the removal
  failed, and \<open>branch -D\<close>. The result is a success exactly when the original branch was
  found, is not the session branch, and one of the two merges succeeded. On a failure the
  file system and the branches are as before: the worktree directory and the session
  branch stay. On a success the worktree directory is gone, and the session branch is gone
  if \<open>branch -D\<close> succeeded; if it failed, the branches are as before.
\<close>

theorem C5_merge_session_worktree:
  "issued w (snd (mergeSessionWorktree w cwd wt bn)) = mergeCommands w wt bn
   \<and> success (fst (mergeSessionWorktree w cwd wt bn)) = mergeSucceeds w bn
   \<and> (\<not> success (fst (mergeSessionWorktree w cwd wt bn))
        \<longrightarrow> disk (snd (mergeSessionWorktree w cwd wt bn)) = disk w
            \<and> branches (snd (mergeSessionWorktree w cwd wt bn)) = branches w)
   \<and> (success (fst (mergeSessionWorktree w cwd wt bn)) \<and> wt \<noteq> []
        \<longrightarrow> \<not> existsSync (disk (snd (mergeSessionWorktree w cwd wt bn))) wt
            \<and> (if gitFails w (BranchDeleteForce bn)
                then branches (snd (mergeSessionWorktree w cwd wt bn)) = branches w
                else bn \<notin> set (branches (snd (mergeSessionWorktree w cwd wt bn)))))"
proof (intro conjI impI)
  show "issued w (snd (mergeSessionWorktree w cwd wt bn)) = mergeCommands w wt bn"
    by (simp add: issued_def merge_log)
  show "success (fst (mergeSessionWorktree w cwd wt bn)) = mergeSucceeds w bn"
    by (rule merge_success)
  show "disk (snd (mergeSessionWorktree w cwd wt bn)) = disk w"
    and "branches (snd (mergeSessionWorktree w cwd wt bn)) = branches w"
    if "\<not> success (fst (mergeSessionWorktree w cwd wt bn))"
    using that merge_failure_frame [of w bn cwd wt] by (simp_all add: merge_success)
next
  assume a: "success (fst (mergeSessionWorktree w cwd wt bn)) \<and> wt \<noteq> []"
  then have "mergeSucceeds w bn" by (simp add: merge_success)
  then obtain w0 where w0: "snd (mergeSessionWorktree w cwd wt bn) = removeSessionWorktree w0 cwd wt bn"
      "gitFails w0 = gitFails w" "branches w0 = branches w"
    using merge_success_state by blast
  show "\<not> existsSync (disk (snd (mergeSessionWorktree w cwd wt bn))) wt"
    unfolding w0(1) using a by (intro remove_directory_gone) simp
  show "if gitFails w (BranchDeleteForce bn)
        then branches (snd (mergeSessionWorktree w cwd wt bn)) = branches w
        else bn \<notin> set (branches (snd (mergeSessionWorktree w cwd wt bn)))"
    unfolding w0(1) using w0(2,3) remove_branch_gone [of w0 bn cwd wt] remove_branch_kept [of w0 bn cwd wt]
    by auto
qed

theorem C5_merge_session_worktree_witness:
  "success (fst (mergeSessionWorktree (exampleWorld divergedHistory) exampleMain exampleWorktree exampleBranch))
   \<and> exampleWorktree \<noteq> []
   \<and> issued (exampleWorld divergedHistory)
        (snd (mergeSessionWorktree (exampleWorld divergedHistory) exampleMain exampleWorktree exampleBranch))
      = [RevParseAbbrevRefHead, MergeFfOnly exampleBranch, MergeNoEdit exampleBranch,
         WorktreeRemoveForce exampleWorktree, BranchDeleteForce exampleBranch]
   \<and> \<not> existsSync (disk (snd (mergeSessionWorktree (exampleWorld divergedHistory)
                                 exampleMain exampleWorktree exampleBranch))) exampleWorktree
   \<and> exampleBranch \<notin> set (branches (snd (mergeSessionWorktree (exampleWorld divergedHistory)
                                           exampleMain exampleWorktree exampleBranch)))
   \<and> \<not> success (fst (mergeSessionWorktree (exampleWorld conflictingHistory)
                        exampleMain exampleWorktree exampleBranch))
   \<and> issued (exampleWorld conflictingHistory)
        (snd (mergeSessionWorktree (exampleWorld conflictingHistory) exampleMain exampleWorktree exampleBranch))
      = [RevParseAbbrevRefHead, MergeFfOnly exampleBranch, MergeNoEdit exampleBranch, MergeAbort]
   \<and> existsSync (disk (snd (mergeSessionWorktree (exampleWorld conflictingHistory)
                               exampleMain exampleWorktree exampleBranch))) exampleWorktree
   \<and> exampleBranch \<in> set (branches (snd (mergeSessionWorktree (exampleWorld conflictingHistory)
                                           exampleMain exampleWorktree exampleBranch)))"
proof -
  have t: "trim (u16 ''main'' @ [0x0A]) \<noteq> exampleBranch"
    by (simp add: trim_def jschar_defs exampleBranch_def)
  have s1: "mergeSucceeds (exampleWorld divergedHistory) exampleBranch"
    using t by (simp add: mergeSucceeds_def exampleWorld_def)
  have s2: "\<not> mergeSucceeds (exampleWorld conflictingHistory) exampleBranch"
    by (simp add: mergeSucceeds_def exampleWorld_def)
  have c1: "mergeCommands (exampleWorld divergedHistory) exampleWorktree exampleBranch
      = [RevParseAbbrevRefHead, MergeFfOnly exampleBranch, MergeNoEdit exampleBranch,
         WorktreeRemoveForce exampleWorktree, BranchDeleteForce exampleBranch]"
    using t by (simp add: mergeCommands_def cleanupCommands_def exampleWorld_def)
  have c2: "mergeCommands (exampleWorld conflictingHistory) exampleWorktree exampleBranch
      = [RevParseAbbrevRefHead, MergeFfOnly exampleBranch, MergeNoEdit exampleBranch, MergeAbort]"
    using t by (simp add: mergeCommands_def exampleWorld_def)
  have n: "exampleWorktree \<noteq> []" by (simp add: exampleWorktree_def)
  have f: "\<not> gitFails (exampleWorld divergedHistory) (BranchDeleteForce exampleBranch)"
    by (simp add: exampleWorld_def)
  have e: "existsSync (disk (exampleWorld conflictingHistory)) exampleWorktree"
    by (simp add: exampleWorld_def exampleTree_def existsSync_def lookup_def exampleWorktree_def u16_def)
  have b: "exampleBranch \<in> set (branches (exampleWorld conflictingHistory))"
    by (simp add: exampleWorld_def)
  show ?thesis
    using C5_merge_session_worktree [of "exampleWorld divergedHistory" exampleMain exampleWorktree exampleBranch]
      C5_merge_session_worktree [of "exampleWorld conflictingHistory" exampleMain exampleWorktree exampleBranch]
      s1 s2 c1 c2 n f e b
    by simp
qed

subsection \<open>Preparing the session worktree\<close>

lemma listWorktrees_state: "snd (listWorktrees w) = w\<lparr>gitLog := gitLog w @ [WorktreeListPorcelain]\<rparr>"
  by (simp add: listWorktrees_def git_def Let_def)

lemma branchExists_state: "snd (branchExists w bn) = w\<lparr>gitLog := gitLog w @ [ShowRefVerifyQuiet bn]\<rparr>"
  by (simp add: branchExists_def git_def Let_def)

lemma branchExists_result: "fst (branchExists w bn) \<longleftrightarrow> \<not> gitFails w (ShowRefVerifyQuiet bn)"
  by (simp add: branchExists_def git_def Let_def)

lemma clear_log: "gitLog (snd (clearStalePath b w wt)) = gitLog w @ clearingCommands w wt"
  by (simp add: clearStalePath_def clearingCommands_def git_def Let_def)

lemma clear_branches [simp]: "branches (snd (clearStalePath b w wt)) = branches w"
  by (simp add: clearStalePath_def git_def Let_def)

lemma clear_gitFails [simp]: "gitFails (snd (clearStalePath b w wt)) = gitFails w"
  by (simp add: clearStalePath_def git_def Let_def)

lemma clear_clears: "wt \<noteq> [] \<Longrightarrow> \<not> existsSync (disk (snd (clearStalePath b w wt))) wt"
  by (auto simp: clearStalePath_def git_def Let_def existsSync_def lookup_rmSync_self)

lemma addDirs_fold_exists:
  "q \<in> set qs \<Longrightarrow>
   lookup (foldl (\<lambda>fs' q. if lookup fs' q = None then (q, Dir) # fs' else fs') fs qs) q \<noteq> None"
proof (induction qs arbitrary: fs)
  case Nil
  then show ?case by simp
next
  case (Cons a qs)
  let ?fs1 = "if lookup fs a = None then (a, Dir) # fs else fs"
  let ?F = "foldl (\<lambda>fs' q. if lookup fs' q = None then (q, Dir) # fs' else fs')"
  show ?case
  proof (cases "q \<in> set qs")
    case True
    then have "lookup (?F ?fs1 qs) q \<noteq> None" by (rule Cons.IH)
    then show ?thesis by simp
  next
    case False
    then have "q = a" using Cons.prems by simp
    then have "lookup ?fs1 q \<noteq> None" by (auto simp: lookup_Cons)
    moreover have "extends ?fs1 (?F ?fs1 qs)" by (rule mkdir_fold_extends)
    ultimately have "lookup (?F ?fs1 qs) q \<noteq> None" unfolding extends_def by auto
    then show ?thesis by simp
  qed
qed

lemma addDirs_exists: "existsSync (addDirs fs p) p"
proof (cases "p = []")
  case True
  then show ?thesis by (simp add: existsSync_def)
next
  case False
  then show ?thesis
    unfolding existsSync_def addDirs_def by (intro addDirs_fold_exists dirChain_self)
qed

lemma mkdir_keeps: "mkdirSyncRecursive fs p = Inr fs' \<Longrightarrow> existsSync fs q \<Longrightarrow> existsSync fs' q"
  using mkdir_extends [of fs p fs'] by (auto simp: extends_def existsSync_def)

lemma copyFile_keeps: "copyFileSync fs src dest = Inr fs' \<Longrightarrow> existsSync fs q \<Longrightarrow> existsSync fs' q"
  by (auto simp: copyFileSync_def existsSync_def lookup_Cons split: option.splits node.splits if_splits)

lemma copyConfigFile_keeps:
  "copyConfigFile c t nm fs = (res, fs') \<Longrightarrow> existsSync fs q \<Longrightarrow> existsSync fs' q"
  by (auto simp: copyConfigFile_def split: if_splits sum.splits dest: mkdir_keeps copyFile_keeps)

lemma copyConfig_keeps:
  assumes "copyConfig cwd wt fs = (res, fs')" and "existsSync fs q"
  shows "existsSync fs' q"
proof -
  let ?c = "cwd @ [u16 ''.ralph-tui'']" and ?t = "wt @ [u16 ''.ralph-tui'']"
  obtain r1 fs1 where 1: "copyConfigFile ?c ?t (u16 ''config.toml'') fs = (r1, fs1)" by fastforce
  obtain r2 fs2 where 2: "copyConfigFile ?c ?t (u16 ''config.yaml'') fs1 = (r2, fs2)" by fastforce
  obtain r3 fs3 where 3: "copyConfigFile ?c ?t (u16 ''config.yml'') fs2 = (r3, fs3)" by fastforce
  have e1: "existsSync fs1 q" using 1 assms(2) by (rule copyConfigFile_keeps)
  have e2: "existsSync fs2 q" using 2 e1 by (rule copyConfigFile_keeps)
  have e3: "existsSync fs3 q" using 3 e2 by (rule copyConfigFile_keeps)
  have "fs' = fs1 \<or> fs' = fs2 \<or> fs' = fs3"
    using assms(1) 1 2 3 by (auto simp: copyConfig_def Let_def split: sum.splits)
  then show ?thesis using e1 e2 e3 by auto
qed

lemma sessionWorktreePath_clean:
  "cleanSegment sessionName \<Longrightarrow> sessionWorktreePath cwd sessionName = getWorktreeBaseDir cwd @ [sessionName]"
  by (simp add: sessionWorktreePath_def pathJoin_clean)

lemma mkdir_parent_frame:
  assumes "mkdirSyncRecursive fs d = Inr fs1"
  shows "existsSync fs1 (d @ [nm]) \<longleftrightarrow> existsSync fs (d @ [nm])"
proof
  assume "existsSync fs (d @ [nm])"
  with assms show "existsSync fs1 (d @ [nm])" by (rule mkdir_keeps)
next
  assume a: "existsSync fs1 (d @ [nm])"
  show "existsSync fs (d @ [nm])"
  proof (rule ccontr)
    assume "\<not> existsSync fs (d @ [nm])"
    then have n: "lookup fs (d @ [nm]) = None" by (simp add: existsSync_def)
    from a obtain x where "lookup fs1 (d @ [nm]) = Some x" by (auto simp: existsSync_def)
    with mkdir_new [OF assms n] have "d @ [nm] \<in> set (dirChain d)" by simp
    then obtain n where "d @ [nm] = take n d" by (auto simp: dirChain_iff)
    then have "length (d @ [nm]) = length (take n d)" by simp
    then show False by simp
  qed
qed

lemma clearing_frame:
  "existsSync (disk v) wt = existsSync (disk w) wt \<Longrightarrow> gitFails v = gitFails w
   \<Longrightarrow> clearingCommands v wt = clearingCommands w wt"
  by (simp add: clearingCommands_def)

lemma git_add_branches: "git v (WorktreeAdd p b) = (r, v') \<Longrightarrow> branches v' = branches v"
  by (auto simp: git_def Let_def split: if_splits)

lemma clear_branches_eq: "clearStalePath b v p = (r, v') \<Longrightarrow> branches v' = branches v"
  using clear_branches [of b v p] by simp

lemma attach_branches [simp]: "branches (snd (attachSessionWorktree w cwd sessionName)) = branches w"
  unfolding attachSessionWorktree_def Let_def
  by (auto split: sum.splits prod.splits dest!: clear_branches_eq git_add_branches)

lemma attach_result:
  assumes "attachSessionWorktree w cwd sessionName = (Inr r, w')"
  shows "r = \<lparr>worktreePath' = sessionWorktreePath cwd sessionName,
              branchName' = sessionBranch sessionName, mode = attached\<rparr>"
    and "existsSync (disk w') (sessionWorktreePath cwd sessionName)"
    and "cleanSegment sessionName \<Longrightarrow>
         gitLog w' = gitLog w @ clearingCommands w (sessionWorktreePath cwd sessionName)
                       @ [WorktreeAdd (sessionWorktreePath cwd sessionName) (sessionBranch sessionName)]"
proof -
  let ?wt = "sessionWorktreePath cwd sessionName" and ?bn = "sessionBranch sessionName"
  from assms obtain fs1 w2 out w3 fs4 where
    mk: "mkdirSyncRecursive (disk w) (getWorktreeBaseDir cwd) = Inr fs1"
    and cl: "clearStalePath False (w\<lparr>disk := fs1\<rparr>) ?wt = (Inr (), w2)"
    and ad: "git w2 (WorktreeAdd ?wt ?bn) = (Inr out, w3)"
    and cc: "copyConfig cwd ?wt (disk w3) = (Inr (), fs4)"
    and w': "w' = w3\<lparr>disk := fs4\<rparr>"
    and r: "r = \<lparr>worktreePath' = ?wt, branchName' = ?bn, mode = attached\<rparr>"
    by (auto simp: attachSessionWorktree_def Let_def sessionWorktreePath_def
          split: sum.splits prod.splits)
  show "r = \<lparr>worktreePath' = ?wt, branchName' = ?bn, mode = attached\<rparr>" by (rule r)
  have w3: "w3 = gitEffect (WorktreeAdd ?wt ?bn) (w2\<lparr>gitLog := gitLog w2 @ [WorktreeAdd ?wt ?bn]\<rparr>)"
    using ad by (auto simp: git_def Let_def split: if_splits)
  then have "existsSync (disk w3) ?wt" by (simp add: addDirs_exists)
  with cc have "existsSync fs4 ?wt" by (rule copyConfig_keeps)
  then show "existsSync (disk w') ?wt" by (simp add: w')
  assume clean: "cleanSegment sessionName"
  have "existsSync fs1 ?wt = existsSync (disk w) ?wt"
    unfolding sessionWorktreePath_clean [OF clean] using mk by (rule mkdir_parent_frame)
  then have "clearingCommands (w\<lparr>disk := fs1\<rparr>) ?wt = clearingCommands w ?wt"
    by (simp add: clearingCommands_def)
  moreover have "gitLog w2 = gitLog (w\<lparr>disk := fs1\<rparr>) @ clearingCommands (w\<lparr>disk := fs1\<rparr>) ?wt"
    using clear_log [of False "w\<lparr>disk := fs1\<rparr>" ?wt] cl by simp
  ultimately show "gitLog w' = gitLog w @ clearingCommands w ?wt @ [WorktreeAdd ?wt ?bn]"
    by (simp add: w' w3)
qed

lemma create_result:
  assumes "createSessionWorktree w cwd sessionName = (Inr r, w')"
  shows "r = \<lparr>worktreePath' = sessionWorktreePath cwd sessionName, branchName' = sessionBranch sessionName\<rparr>"
    and "existsSync (disk w') (sessionWorktreePath cwd sessionName)"
    and "sessionBranch sessionName \<in> set (branches w')"
    and "cleanSegment sessionName \<Longrightarrow>
         gitLog w' = gitLog w @ clearingCommands w (sessionWorktreePath cwd sessionName)
                       @ [BranchDeleteForce (sessionBranch sessionName),
                          WorktreeAddNewBranch (sessionBranch sessionName) (sessionWorktreePath cwd sessionName)]"
proof -
  let ?wt = "sessionWorktreePath cwd sessionName" and ?bn = "sessionBranch sessionName"
  from assms obtain fs1 w2 out w4 fs5 where
    mk: "mkdirSyncRecursive (disk w) (getWorktreeBaseDir cwd) = Inr fs1"
    and cl: "clearStalePath True (w\<lparr>disk := fs1\<rparr>) ?wt = (Inr (), w2)"
    and ad: "git (snd (git w2 (BranchDeleteForce ?bn))) (WorktreeAddNewBranch ?bn ?wt) = (Inr out, w4)"
    and cc: "copyConfig cwd ?wt (disk w4) = (Inr (), fs5)"
    and w': "w' = w4\<lparr>disk := fs5\<rparr>"
    and r: "r = \<lparr>worktreePath' = ?wt, branchName' = ?bn\<rparr>"
    by (auto simp: createSessionWorktree_def Let_def sessionWorktreePath_def
          split: sum.splits prod.splits)
  show "r = \<lparr>worktreePath' = ?wt, branchName' = ?bn\<rparr>" by (rule r)
  let ?w3 = "snd (git w2 (BranchDeleteForce ?bn))"
  have w4: "w4 = gitEffect (WorktreeAddNewBranch ?bn ?wt)
                   (?w3\<lparr>gitLog := gitLog ?w3 @ [WorktreeAddNewBranch ?bn ?wt]\<rparr>)"
    using ad by (auto simp: git_def Let_def split: if_splits)
  then have "existsSync (disk w4) ?wt" by (simp add: addDirs_exists)
  with cc have "existsSync fs5 ?wt" by (rule copyConfig_keeps)
  then show "existsSync (disk w') ?wt" by (simp add: w')
  show "?bn \<in> set (branches w')" by (simp add: w' w4)
  assume clean: "cleanSegment sessionName"
  have "existsSync fs1 ?wt = existsSync (disk w) ?wt"
    unfolding sessionWorktreePath_clean [OF clean] using mk by (rule mkdir_parent_frame)
  then have "clearingCommands (w\<lparr>disk := fs1\<rparr>) ?wt = clearingCommands w ?wt"
    by (simp add: clearingCommands_def)
  moreover have "gitLog w2 = gitLog (w\<lparr>disk := fs1\<rparr>) @ clearingCommands (w\<lparr>disk := fs1\<rparr>) ?wt"
    using clear_log [of True "w\<lparr>disk := fs1\<rparr>" ?wt] cl by simp
  ultimately show "gitLog w' = gitLog w @ clearingCommands w ?wt
                     @ [BranchDeleteForce ?bn, WorktreeAddNewBranch ?bn ?wt]"
    by (simp add: w' w4)
qed

lemma createFresh_result:
  assumes "createFresh w cwd sessionName = (Inr r, w')"
  shows "r = \<lparr>worktreePath' = sessionWorktreePath cwd sessionName,
              branchName' = sessionBranch sessionName, mode = created\<rparr>"
    and "existsSync (disk w') (sessionWorktreePath cwd sessionName)"
    and "sessionBranch sessionName \<in> set (branches w')"
    and "cleanSegment sessionName \<Longrightarrow>
         gitLog w' = gitLog w @ clearingCommands w (sessionWorktreePath cwd sessionName)
                       @ [BranchDeleteForce (sessionBranch sessionName),
                          WorktreeAddNewBranch (sessionBranch sessionName) (sessionWorktreePath cwd sessionName)]"
proof -
  from assms obtain c where c: "createSessionWorktree w cwd sessionName = (Inr c, w')"
    and r: "r = \<lparr>worktreePath' = worktreePath' c, branchName' = branchName' c, mode = created\<rparr>"
    by (auto simp: createFresh_def split: sum.splits prod.splits)
  show "r = \<lparr>worktreePath' = sessionWorktreePath cwd sessionName,
              branchName' = sessionBranch sessionName, mode = created\<rparr>"
    using create_result(1) [OF c] r by simp
  show "existsSync (disk w') (sessionWorktreePath cwd sessionName)" by (rule create_result(2) [OF c])
  show "sessionBranch sessionName \<in> set (branches w')" by (rule create_result(3) [OF c])
  show "gitLog w' = gitLog w @ clearingCommands w (sessionWorktreePath cwd sessionName)
                       @ [BranchDeleteForce (sessionBranch sessionName),
                          WorktreeAddNewBranch (sessionBranch sessionName) (sessionWorktreePath cwd sessionName)]"
    if "cleanSegment sessionName" using that by (rule create_result(4) [OF c])
qed

text \<open>
  C8. With the resume option set: if the listing of the worktrees has an entry for the
  session branch, the result is that entry's path with mode \<open>reused\<close>, and nothing but the
  listing was run; if it has none and \<open>show-ref\<close> finds the branch, every result returned
  is the session's worktree path with mode \<open>attached\<close>, the path exists, the branches are
  as before, and the commands run are the two queries, the clearing of a stale path
  (\<open>worktree remove --force\<close>, then \<open>worktree prune\<close> if that failed) when the path
  existed, and \<open>worktree add\<close> on the existing branch. In all other cases every result
  returned is the session's worktree path with mode \<open>created\<close>, from
  \<open>branch -D\<close> and \<open>worktree add -b\<close> after the same clearing. So a returned mode is one
  of the three. The function may also raise (too little disk space, a failing git command
  or file operation); then there is no result.
\<close>

theorem C8_prepare_session_worktree:
  assumes "prepareSessionWorktree w cwd sessionName resumeOption = (outcome, w')"
  shows
    "(resumeOption = Some True \<and> checkedOutIn w (sessionBranch sessionName) = Some e
        \<longrightarrow> outcome = Inr \<lparr>worktreePath' = entryPath e, branchName' = sessionBranch sessionName,
                            mode = reused\<rparr>
            \<and> issued w w' = [WorktreeListPorcelain] \<and> disk w' = disk w \<and> branches w' = branches w)
     \<and> (resumeOption = Some True \<and> checkedOutIn w (sessionBranch sessionName) = None
          \<and> \<not> gitFails w (ShowRefVerifyQuiet (sessionBranch sessionName))
        \<longrightarrow> branches w' = branches w
            \<and> (\<forall>r. outcome = Inr r \<longrightarrow>
                  r = \<lparr>worktreePath' = sessionWorktreePath cwd sessionName,
                       branchName' = sessionBranch sessionName, mode = attached\<rparr>
                  \<and> existsSync (disk w') (sessionWorktreePath cwd sessionName)
                  \<and> (cleanSegment sessionName \<longrightarrow>
                       issued w w' =
                         [WorktreeListPorcelain, ShowRefVerifyQuiet (sessionBranch sessionName)]
                         @ clearingCommands w (sessionWorktreePath cwd sessionName)
                         @ [WorktreeAdd (sessionWorktreePath cwd sessionName) (sessionBranch sessionName)])))
     \<and> (resumeOption \<noteq> Some True
          \<or> (checkedOutIn w (sessionBranch sessionName) = None
              \<and> gitFails w (ShowRefVerifyQuiet (sessionBranch sessionName)))
        \<longrightarrow> (\<forall>r. outcome = Inr r \<longrightarrow>
                  r = \<lparr>worktreePath' = sessionWorktreePath cwd sessionName,
                       branchName' = sessionBranch sessionName, mode = created\<rparr>
                  \<and> existsSync (disk w') (sessionWorktreePath cwd sessionName)
                  \<and> sessionBranch sessionName \<in> set (branches w')
                  \<and> (cleanSegment sessionName \<longrightarrow>
                       issued w w' =
                         (if resumeOption = Some True
                          then [WorktreeListPorcelain, ShowRefVerifyQuiet (sessionBranch sessionName)]
                          else [])
                         @ clearingCommands w (sessionWorktreePath cwd sessionName)
                         @ [BranchDeleteForce (sessionBranch sessionName),
                            WorktreeAddNewBranch (sessionBranch sessionName)
                              (sessionWorktreePath cwd sessionName)])))
     \<and> (\<forall>r. outcome = Inr r \<longrightarrow> mode r \<in> {created, reused, attached})"
proof -
  let ?bn = "sessionBranch sessionName" and ?wt = "sessionWorktreePath cwd sessionName"
  let ?w1 = "w\<lparr>gitLog := gitLog w @ [WorktreeListPorcelain]\<rparr>"
  let ?w2 = "w\<lparr>gitLog := gitLog w @ [WorktreeListPorcelain, ShowRefVerifyQuiet ?bn]\<rparr>"
  have prep: "prepareSessionWorktree w cwd sessionName resumeOption =
      (if resumeOption = Some True
       then (case checkedOutIn w ?bn of
               Some found \<Rightarrow>
                 (Inr \<lparr>worktreePath' = entryPath found, branchName' = ?bn, mode = reused\<rparr>, ?w1)
             | None \<Rightarrow>
                 if gitFails w (ShowRefVerifyQuiet ?bn) then createFresh ?w2 cwd sessionName
                 else attachSessionWorktree ?w2 cwd sessionName)
       else createFresh w cwd sessionName)"
  proof -
    have r: "(case resumeOption of None \<Rightarrow> False | Some r \<Rightarrow> r) \<longleftrightarrow> resumeOption = Some True"
      by (cases resumeOption) auto
    obtain entries v where lw: "listWorktrees w = (entries, v)" by fastforce
    then have v: "v = ?w1" using listWorktrees_state [of w] by simp
    obtain ex v2 where be: "branchExists ?w1 ?bn = (ex, v2)" by fastforce
    then have v2: "v2 = ?w2" using branchExists_state [of ?w1 ?bn] by simp
    have ex: "ex \<longleftrightarrow> \<not> gitFails w (ShowRefVerifyQuiet ?bn)"
      using branchExists_result [of ?w1 ?bn] be by simp
    show ?thesis
      unfolding prepareSessionWorktree_def Let_def r checkedOutIn_def lw fst_conv
      by (simp add: v be v2 ex split: option.splits)
  qed
  have reuse: "outcome = Inr \<lparr>worktreePath' = entryPath e, branchName' = ?bn, mode = reused\<rparr>
            \<and> issued w w' = [WorktreeListPorcelain] \<and> disk w' = disk w \<and> branches w' = branches w"
    if "resumeOption = Some True \<and> checkedOutIn w ?bn = Some e"
    using that assms unfolding prep by (auto simp: issued_def)
  have att: "branches w' = branches w
            \<and> (\<forall>r. outcome = Inr r \<longrightarrow>
                  r = \<lparr>worktreePath' = ?wt, branchName' = ?bn, mode = attached\<rparr>
                  \<and> existsSync (disk w') ?wt
                  \<and> (cleanSegment sessionName \<longrightarrow>
                       issued w w' = [WorktreeListPorcelain, ShowRefVerifyQuiet ?bn]
                         @ clearingCommands w ?wt @ [WorktreeAdd ?wt ?bn]))"
    if h: "resumeOption = Some True \<and> checkedOutIn w ?bn = None \<and> \<not> gitFails w (ShowRefVerifyQuiet ?bn)"
  proof -
    have a: "attachSessionWorktree ?w2 cwd sessionName = (outcome, w')"
      using h assms unfolding prep by simp
    have b: "branches w' = branches w" using attach_branches [of ?w2 cwd sessionName] a by simp
    have c: "clearingCommands ?w2 ?wt = clearingCommands w ?wt" by (simp add: clearingCommands_def)
    show ?thesis
      using b attach_result [of ?w2 cwd sessionName _ w'] a c by (auto simp: issued_def)
  qed
  have cre: "\<forall>r. outcome = Inr r \<longrightarrow>
                  r = \<lparr>worktreePath' = ?wt, branchName' = ?bn, mode = created\<rparr>
                  \<and> existsSync (disk w') ?wt \<and> ?bn \<in> set (branches w')
                  \<and> (cleanSegment sessionName \<longrightarrow>
                       issued w w' =
                         (if resumeOption = Some True
                          then [WorktreeListPorcelain, ShowRefVerifyQuiet ?bn] else [])
                         @ clearingCommands w ?wt
                         @ [BranchDeleteForce ?bn, WorktreeAddNewBranch ?bn ?wt])"
    if h: "resumeOption \<noteq> Some True
           \<or> (checkedOutIn w ?bn = None \<and> gitFails w (ShowRefVerifyQuiet ?bn))"
  proof (cases "resumeOption = Some True")
    case True
    then have a: "createFresh ?w2 cwd sessionName = (outcome, w')"
      using h assms unfolding prep by simp
    have c: "clearingCommands ?w2 ?wt = clearingCommands w ?wt" by (simp add: clearingCommands_def)
    show ?thesis
      using createFresh_result [of ?w2 cwd sessionName _ w'] a c True by (auto simp: issued_def)
  next
    case False
    then have a: "createFresh w cwd sessionName = (outcome, w')"
      using assms unfolding prep by simp
    show ?thesis
      using createFresh_result [of w cwd sessionName _ w'] a False by (auto simp: issued_def)
  qed
  have modes: "\<forall>r. outcome = Inr r \<longrightarrow> mode r \<in> {created, reused, attached}"
  proof (intro allI impI)
    fix r
    show "mode r \<in> {created, reused, attached}" by (cases "mode r") simp_all
  qed
  show ?thesis using reuse att cre modes by blast
qed

lemma example_session_paths:
  "sessionWorktreePath exampleMain (u16 ''s'') = exampleWorktree"
  "sessionBranch (u16 ''s'') = exampleBranch"
  "cleanSegment (u16 ''s'')"
  by (simp_all add: sessionWorktreePath_def getWorktreeBaseDir_def pathBasename_def path_eval
        exampleMain_def exampleWorktree_def sessionBranch_def exampleBranch_def cleanSegment_def u16_def)

lemma example_listing:
  "parseWorktreeList exampleMain exampleListing =
     [\<lparr>entryPath = exampleMain, entryBranch = Some (u16 ''main'')\<rparr>,
      \<lparr>entryPath = exampleWorktree, entryBranch = Some exampleBranch\<rparr>]"
  by (simp add: parseWorktreeList_def exampleListing_def path_eval trim_def jschar_defs
        exampleMain_def exampleWorktree_def exampleBranch_def)

lemma example_checked_out:
  "checkedOutIn checkedOutWorld exampleBranch
     = Some \<lparr>entryPath = exampleWorktree, entryBranch = Some exampleBranch\<rparr>"
  "checkedOutIn (exampleWorld noFailure) exampleBranch = None"
proof -
  have "u16 ''main'' \<noteq> exampleBranch" by (simp add: exampleBranch_def u16_def)
  then show "checkedOutIn checkedOutWorld exampleBranch
     = Some \<lparr>entryPath = exampleWorktree, entryBranch = Some exampleBranch\<rparr>"
    by (simp add: checkedOutIn_def listWorktrees_def git_def Let_def checkedOutWorld_def
          exampleWorld_def noFailure_def example_listing)
  show "checkedOutIn (exampleWorld noFailure) exampleBranch = None"
    by (simp add: checkedOutIn_def listWorktrees_def git_def Let_def exampleWorld_def noFailure_def
          parseWorktreeList_def)
qed

lemma example_stale_path:
  "clearingCommands (exampleWorld noFailure) exampleWorktree = [WorktreeRemoveForce exampleWorktree]"
  by (simp add: clearingCommands_def exampleWorld_def noFailure_def existsSync_def lookup_def
        exampleTree_def exampleWorktree_def u16_def)

lemma example_attach_returns:
  "\<exists>r. fst (prepareSessionWorktree (exampleWorld noFailure) exampleMain (u16 ''s'') (Some True)) = Inr r"
  by (simp add: prepareSessionWorktree_def listWorktrees_def branchExists_def attachSessionWorktree_def
        createFresh_def createSessionWorktree_def clearStalePath_def copyConfig_def copyConfigFile_def
        checkDiskSpace_def availableDiskSpace_def DEFAULT_MIN_FREE_DISK_SPACE_def git_def Let_def
        exampleWorld_def noFailure_def parseWorktreeList_def sessionBranch_def getWorktreeBaseDir_def
        pathBasename_def path_eval exampleMain_def exampleTree_def exampleWorktree_def iterationsDir_def
        mkdirSyncRecursive_def dirChain_def existsSync_def lookup_def rmSyncRecursiveForce_def
        isInside_def addDirs_def u16_def)

lemma example_create_returns:
  "\<exists>r. fst (prepareSessionWorktree (exampleWorld noFailure) exampleMain (u16 ''s'') None) = Inr r"
  by (simp add: prepareSessionWorktree_def listWorktrees_def branchExists_def attachSessionWorktree_def
        createFresh_def createSessionWorktree_def clearStalePath_def copyConfig_def copyConfigFile_def
        checkDiskSpace_def availableDiskSpace_def DEFAULT_MIN_FREE_DISK_SPACE_def git_def Let_def
        exampleWorld_def noFailure_def parseWorktreeList_def sessionBranch_def getWorktreeBaseDir_def
        pathBasename_def path_eval exampleMain_def exampleTree_def exampleWorktree_def iterationsDir_def
        mkdirSyncRecursive_def dirChain_def existsSync_def lookup_def rmSyncRecursiveForce_def
        isInside_def addDirs_def u16_def)

theorem C8_prepare_session_worktree_witness:
  "fst (prepareSessionWorktree checkedOutWorld exampleMain (u16 ''s'') (Some True))
     = Inr \<lparr>worktreePath' = exampleWorktree, branchName' = exampleBranch, mode = reused\<rparr>
   \<and> issued checkedOutWorld
        (snd (prepareSessionWorktree checkedOutWorld exampleMain (u16 ''s'') (Some True)))
      = [WorktreeListPorcelain]
   \<and> fst (prepareSessionWorktree (exampleWorld noFailure) exampleMain (u16 ''s'') (Some True))
      = Inr \<lparr>worktreePath' = exampleWorktree, branchName' = exampleBranch, mode = attached\<rparr>
   \<and> issued (exampleWorld noFailure)
        (snd (prepareSessionWorktree (exampleWorld noFailure) exampleMain (u16 ''s'') (Some True)))
      = [WorktreeListPorcelain, ShowRefVerifyQuiet exampleBranch,
         WorktreeRemoveForce exampleWorktree, WorktreeAdd exampleWorktree exampleBranch]
   \<and> fst (prepareSessionWorktree (exampleWorld noFailure) exampleMain (u16 ''s'') None)
      = Inr \<lparr>worktreePath' = exampleWorktree, branchName' = exampleBranch, mode = created\<rparr>
   \<and> issued (exampleWorld noFailure)
        (snd (prepareSessionWorktree (exampleWorld noFailure) exampleMain (u16 ''s'') None))
      = [WorktreeRemoveForce exampleWorktree, BranchDeleteForce exampleBranch,
         WorktreeAddNewBranch exampleBranch exampleWorktree]"
proof -
  let ?reuse = "prepareSessionWorktree checkedOutWorld exampleMain (u16 ''s'') (Some True)"
  let ?attach = "prepareSessionWorktree (exampleWorld noFailure) exampleMain (u16 ''s'') (Some True)"
  let ?create = "prepareSessionWorktree (exampleWorld noFailure) exampleMain (u16 ''s'') None"
  have nf: "\<not> gitFails (exampleWorld noFailure) (ShowRefVerifyQuiet exampleBranch)"
    by (simp add: exampleWorld_def noFailure_def)
  have "?reuse = (fst ?reuse, snd ?reuse)" by simp
  note reuse = C8_prepare_session_worktree [OF this,
      of "\<lparr>entryPath = exampleWorktree, entryBranch = Some exampleBranch\<rparr>",
      unfolded example_session_paths]
  have "?attach = (fst ?attach, snd ?attach)" by simp
  note attach = C8_prepare_session_worktree [OF this, unfolded example_session_paths]
  have "?create = (fst ?create, snd ?create)" by simp
  note create = C8_prepare_session_worktree [OF this, unfolded example_session_paths]
  have 1: "fst ?reuse = Inr \<lparr>worktreePath' = exampleWorktree, branchName' = exampleBranch, mode = reused\<rparr>
           \<and> issued checkedOutWorld (snd ?reuse) = [WorktreeListPorcelain]"
    using reuse example_checked_out(1) by simp
  obtain r where r: "fst ?attach = Inr r" using example_attach_returns by blast
  have 2: "fst ?attach = Inr \<lparr>worktreePath' = exampleWorktree, branchName' = exampleBranch, mode = attached\<rparr>
           \<and> issued (exampleWorld noFailure) (snd ?attach)
             = [WorktreeListPorcelain, ShowRefVerifyQuiet exampleBranch,
                WorktreeRemoveForce exampleWorktree, WorktreeAdd exampleWorktree exampleBranch]"
    using attach example_checked_out(2) nf r example_stale_path example_session_paths(3) by simp
  obtain c where c: "fst ?create = Inr c" using example_create_returns by blast
  have 3: "fst ?create = Inr \<lparr>worktreePath' = exampleWorktree, branchName' = exampleBranch, mode = created\<rparr>
           \<and> issued (exampleWorld noFailure) (snd ?create)
             = [WorktreeRemoveForce exampleWorktree, BranchDeleteForce exampleBranch,
                WorktreeAddNewBranch exampleBranch exampleWorktree]"
    using create c example_stale_path example_session_paths(3) by simp
  show ?thesis using 1 2 3 by simp
qed

end
